theory Spec2Isabelle
  imports Complex_Main "HOL-Library.Monad_Syntax" "HOL-Library.AList"
begin

section \<open>Values of the heap-snapshot document\<close>

text \<open>
  The decoder of \<^verbatim>\<open>src/index.ts\<close> receives a JSON document. Its run-time shape is what
  \<^verbatim>\<open>Sanity.check\<close> inspects, so the document is modelled untyped, as the JSON data model
  extended with \<^verbatim>\<open>undefined\<close> (the result of reading an absent property or array slot).
  A JavaScript number is a double, and every finite double is a rational number: numbers
  are modelled as exact rationals. The decoder compares them, multiplies a declared count
  by a field count and divides an edge's third field by the node field count. With arrays
  that an engine can hold (fewer than \<open>2 ^ 32\<close> entries) the exact product decides the
  element-count assertions as the rounded one does, and so does the exact quotient decide
  which node an edge reaches, but for a quotient that underflows: \<open>div_num\<close> writes that
  case out. An object is the list of its own properties, the first binding of a key being
  the one that is read.
\<close>

datatype jsval =
    JUndefined
  | JNull
  | JBool bool
  | JNum rat
  | JStr string
  | JArr "jsval list"
  | JObj "(string \<times> jsval) list"

text \<open>The exceptions the decoder can throw.\<close>

datatype error =
    AssertError string
      \<comment> \<open>\<^verbatim>\<open>new Error(desc)\<close> of \<^verbatim>\<open>assertX\<close> and of \<^verbatim>\<open>parseSnapshot\<close>; the text up to interpolated numbers\<close>
  | LengthError string "rat option" "rat option"
      \<comment> \<open>\<^verbatim>\<open>assertLength\<close>: name, actual length, expected length\<close>
  | TypeError
      \<comment> \<open>the engine's error on reading a property of \<^verbatim>\<open>undefined\<close> or \<^verbatim>\<open>null\<close>, and on
          converting to text a value that has no callable \<^verbatim>\<open>toString\<close> or \<^verbatim>\<open>valueOf\<close>\<close>
  | InvalidStringIndex
      \<comment> \<open>\<^verbatim>\<open>new Error("Invalid string index!")\<close>\<close>
  | GlobalNotFound
      \<comment> \<open>\<^verbatim>\<open>new Error("Could not find global object!")\<close>\<close>

text \<open>Sequencing of computations that may throw.\<close>

fun thenE :: "error + 'a \<Rightarrow> ('a \<Rightarrow> error + 'b) \<Rightarrow> error + 'b" where
  "thenE (Inl e) f = Inl e"
| "thenE (Inr x) f = f x"

text \<open>
  Some steps of the validator have no result in this model (see \<open>js_length\<close> below): the
  outcome of a computation that contains such a step is an option, \<open>None\<close> when the run
  reaches one. \<open>thenS\<close> sequences a step that always has a result, \<open>thenL\<close> a step that
  may have none.
\<close>

fun thenS :: "error + 'a \<Rightarrow> ('a \<Rightarrow> (error + 'b) option) \<Rightarrow> (error + 'b) option" where
  "thenS (Inl e) f = Some (Inl e)"
| "thenS (Inr x) f = f x"

fun thenL :: "(error + 'a) option \<Rightarrow> ('a \<Rightarrow> (error + 'b) option) \<Rightarrow> (error + 'b) option" where
  "thenL None f = None"
| "thenL (Some m) f = thenS m f"

fun typeof :: "jsval \<Rightarrow> string" where
  "typeof JUndefined = ''undefined''"
| "typeof JNull = ''object''"
| "typeof (JBool b) = ''boolean''"
| "typeof (JNum q) = ''number''"
| "typeof (JStr s) = ''string''"
| "typeof (JArr xs) = ''object''"
| "typeof (JObj kvs) = ''object''"

fun isArray :: "jsval \<Rightarrow> bool" where
  "isArray (JArr xs) = True"
| "isArray v = False"

definition is_int :: "rat \<Rightarrow> bool" where
  "is_int q = (of_int \<lfloor>q\<rfloor> = q)"

text \<open>\<^verbatim>\<open>Number.isInteger\<close>: a number with no fractional part; false on every non-number.\<close>

fun isInteger :: "jsval \<Rightarrow> bool" where
  "isInteger (JNum q) = is_int q"
| "isInteger v = False"

text \<open>
  Reading a named property \<^verbatim>\<open>x.p\<close>. Reading from \<^verbatim>\<open>undefined\<close> or \<^verbatim>\<open>null\<close> throws; an
  absent property reads as \<^verbatim>\<open>undefined\<close>. Arrays and strings carry \<^verbatim>\<open>length\<close>.
\<close>

fun getprop :: "jsval \<Rightarrow> string \<Rightarrow> error + jsval" where
  "getprop JUndefined p = Inl TypeError"
| "getprop JNull p = Inl TypeError"
| "getprop (JObj kvs) p = Inr (case map_of kvs p of Some v \<Rightarrow> v | None \<Rightarrow> JUndefined)"
| "getprop (JArr xs) p = Inr (if p = ''length'' then JNum (of_nat (length xs)) else JUndefined)"
| "getprop (JStr s) p = Inr (if p = ''length'' then JNum (of_nat (length s)) else JUndefined)"
| "getprop v p = Inr JUndefined"

text \<open>
  The value of \<^verbatim>\<open>x.length\<close> where the validator reads it: a number, or \<open>None\<close> for
  \<^verbatim>\<open>undefined\<close> (and for \<^verbatim>\<open>NaN\<close> after arithmetic). Arrays and strings have their length;
  numbers, booleans and objects without a property of that name have none. An object with
  a property \<^verbatim>\<open>length\<close> of its own answers with its value. A whole number is used as it
  is. Any other value is converted where \<^verbatim>\<open>==\<close>, \<^verbatim>\<open>>=\<close> and \<^verbatim>\<open>*\<close> use it (a text, an array,
  another object, \<^verbatim>\<open>null\<close>, a boolean: \<^verbatim>\<open>"6" == 6\<close> holds), or makes the product with a
  declared count inexact (a fraction). These conversions and roundings are not modelled:
  for such an object \<open>js_length\<close> has no result, and neither has a validation that reads
  its length.
\<close>

fun js_length :: "jsval \<Rightarrow> (error + rat option) option" where
  "js_length JUndefined = Some (Inl TypeError)"
| "js_length JNull = Some (Inl TypeError)"
| "js_length (JArr xs) = Some (Inr (Some (of_nat (length xs))))"
| "js_length (JStr s) = Some (Inr (Some (of_nat (length s))))"
| "js_length (JObj kvs) =
     (case map_of kvs ''length'' of
        None \<Rightarrow> Some (Inr None)
      | Some (JNum q) \<Rightarrow> if is_int q then Some (Inr (Some q)) else None
      | Some v \<Rightarrow> None)"
| "js_length v = Some (Inr None)"

text \<open>Indexing an array, \<^verbatim>\<open>arr[i]\<close>: \<^verbatim>\<open>undefined\<close> unless \<open>i\<close> is a natural number below the length.\<close>

definition index :: "'a list \<Rightarrow> rat option \<Rightarrow> 'a option" where
  "index arr i =
     (case i of
        None \<Rightarrow> None
      | Some q \<Rightarrow> if is_int q \<and> 0 \<le> q \<and> nat \<lfloor>q\<rfloor> < length arr then Some (arr ! nat \<lfloor>q\<rfloor>) else None)"

text \<open>
  The position that \<^verbatim>\<open>arr[i]\<close> reads, when it reads one. Objects held in an array are
  referred to by their position in it.
\<close>

definition ref_at :: "'a list \<Rightarrow> rat option \<Rightarrow> nat option" where
  "ref_at arr i =
     (case i of
        None \<Rightarrow> None
      | Some q \<Rightarrow> if is_int q \<and> 0 \<le> q \<and> nat \<lfloor>q\<rfloor> < length arr then Some (nat \<lfloor>q\<rfloor>) else None)"

text \<open>\<^verbatim>\<open>arr[k]\<close> for a loop counter \<open>k\<close>.\<close>

definition elem_at :: "'a list \<Rightarrow> nat \<Rightarrow> 'a option" where
  "elem_at arr k = (if k < length arr then Some (arr ! k) else None)"

section \<open>Schema validation: \<^verbatim>\<open>namespace Sanity\<close>\<close>

text \<open>
  The expected shape of the meta descriptor (\<^verbatim>\<open>metaDataProto\<close>): strings, arrays, objects,
  and entries wrapped by \<^verbatim>\<open>opt\<close>.
\<close>

datatype proto =
    POptional proto
  | PString string
  | PArray "proto list"
  | PObject "(string \<times> proto) list"

definition nodeTypeTypesProto :: proto where
  "nodeTypeTypesProto = PArray (map PString
     [''hidden'', ''array'', ''string'', ''object'', ''code'', ''closure'', ''regexp'', ''number'',
      ''native'', ''synthetic'', ''concatenated string'', ''sliced string'', ''symbol'', ''bigint''])"

definition metaDataProto :: proto where
  "metaDataProto = PObject
     [(''node_fields'', PArray [PString ''type'', PString ''name'', PString ''id'', PString ''self_size'',
         PString ''edge_count'', PString ''trace_node_id'', POptional (PString ''detachedness'')]),
      (''node_types'', PArray [nodeTypeTypesProto, PString ''string'', PString ''number'', PString ''number'',
         PString ''number'', PString ''number'', POptional (PString ''number'')]),
      (''edge_fields'', PArray [PString ''type'', PString ''name_or_index'', PString ''to_node'']),
      (''edge_types'', PArray [PArray (map PString [''context'', ''element'', ''property'', ''internal'',
         ''hidden'', ''shortcut'', ''weak'']), PString ''string_or_number'', PString ''node'']),
      (''trace_function_info_fields'', PArray (map PString
         [''function_id'', ''name'', ''script_name'', ''script_id'', ''line'', ''column''])),
      (''trace_node_fields'', PArray (map PString
         [''id'', ''function_info_index'', ''count'', ''size'', ''children''])),
      (''sample_fields'', PArray (map PString [''timestamp_us'', ''last_assigned_id''])),
      (''location_fields'', PArray (map PString [''object_index'', ''script_id'', ''line'', ''column'']))]"

text \<open>
  A path into the descriptor, as the template strings build it: the root text followed by
  \<^verbatim>\<open>[idx]\<close> and \<^verbatim>\<open>.prop\<close> steps.
\<close>

datatype step = AtIndex nat | AtProp string

type_synonym path = "string \<times> step list"

text \<open>
  What is written to the console: one constructor for each \<^verbatim>\<open>console.warn\<close> and
  \<^verbatim>\<open>console.error\<close> call of the namespace, with the values its message interpolates.
\<close>

datatype diag =
    WarnExpected path string jsval
      \<comment> \<open>\<^verbatim>\<open>Expected 'path' to be 'proto' but was 'data'!\<close>\<close>
  | WarnNotArray path jsval
      \<comment> \<open>\<^verbatim>\<open>Expected 'path' to be an array but was ...!\<close>\<close>
  | WarnNewElements path nat
      \<comment> \<open>\<^verbatim>\<open>Array at 'path' has n new element!\<close>\<close>
  | WarnNewElementAt nat "jsval option"
      \<comment> \<open>\<^verbatim>\<open>- At index idx: ...\<close>\<close>
  | WarnNotObject path jsval
      \<comment> \<open>\<^verbatim>\<open>Expected 'path' to be an object but was ...!\<close>\<close>
  | ErrorFormatChanged
      \<comment> \<open>\<^verbatim>\<open>console.error("Heapsnapshot format changed! Please report to ...")\<close>\<close>
  | ErrorContinuing
      \<comment> \<open>\<^verbatim>\<open>console.error("Continuing anyway... :)")\<close>\<close>

fun assertX :: "string \<Rightarrow> bool \<Rightarrow> error + unit" where
  "assertX desc cond = (if \<not> cond then Inl (AssertError desc) else Inr ())"

text \<open>
  A text between single quotes, as the messages of \<^verbatim>\<open>assertArray\<close> and \<^verbatim>\<open>assertInteger\<close>
  show the type.
\<close>

definition quoted :: "string \<Rightarrow> string" where
  "quoted s = [CHR 0x27] @ s @ [CHR 0x27]"

definition assertObject :: "string \<Rightarrow> jsval \<Rightarrow> error + unit" where
  "assertObject path x =
     assertX (path @ '' is not an object, but is '' @ typeof x) (typeof x = ''object'')"

definition assertArray :: "string \<Rightarrow> jsval \<Rightarrow> error + unit" where
  "assertArray path arr =
     assertX (path @ '' is not an array, but is '' @ quoted (typeof arr)) (isArray arr)"

definition assertInteger :: "string \<Rightarrow> jsval \<Rightarrow> error + unit" where
  "assertInteger path n =
     assertX (path @ '' is not an integer, but is '' @ quoted (typeof n)) (isInteger n)"

definition assertLength :: "string \<Rightarrow> rat option \<Rightarrow> rat option \<Rightarrow> error + unit" where
  "assertLength name len expectedLen =
     (if len \<noteq> expectedLen \<or> expectedLen = None then Inl (LengthError name len expectedLen)
      else Inr ())"

text \<open>
  \<^verbatim>\<open>data[idx]\<close> and \<^verbatim>\<open>data[prop]\<close> inside \<^verbatim>\<open>checkMetaData\<close>: an absent slot or key is
  \<^verbatim>\<open>undefined\<close>.
\<close>

definition slot :: "jsval list \<Rightarrow> nat \<Rightarrow> jsval" where
  "slot xs idx = (if idx < length xs then xs ! idx else JUndefined)"

text \<open>
  Whether the template literal \<^verbatim>\<open>${data}\<close> of line 117 throws. Converting an object to
  text calls its \<^verbatim>\<open>toString\<close>; a property \<^verbatim>\<open>toString\<close> of the object's own (in a document,
  never a function) hides the inherited one, the inherited \<^verbatim>\<open>valueOf\<close> returns the object
  itself, and the engine throws a \<^verbatim>\<open>TypeError\<close>. An array is converted by joining the texts
  of its elements. (\<^verbatim>\<open>JSON.stringify\<close>, which the other warnings use, does not throw on a
  document.)
\<close>

fun toString_throws :: "jsval \<Rightarrow> bool" where
  "toString_throws (JObj kvs) = (map_of kvs ''toString'' \<noteq> None)"
| "toString_throws (JArr xs) = list_ex toString_throws xs"
| "toString_throws v = False"

text \<open>
  \<^verbatim>\<open>checkMetaData(path, data, proto)\<close>: the diagnostics it prints and its result. The two
  loops are \<open>checkIndices\<close> (over \<^verbatim>\<open>idx < proto.length\<close>) and \<open>checkProps\<close> (over
  \<^verbatim>\<open>prop in proto\<close>); each carries \<^verbatim>\<open>ok\<close>. In \<^verbatim>\<open>checkMetaData(...) && ok\<close> the call is the
  left operand, so it is always made. The string branch builds its warning from
  \<^verbatim>\<open>${data}\<close> and throws when that conversion does, before anything is printed for this
  entry. The object branch lets \<^verbatim>\<open>null\<close> through its guard (\<^verbatim>\<open>typeof null\<close> is \<^verbatim>\<open>"object"\<close>) and
  then throws on \<^verbatim>\<open>data[prop]\<close>.
\<close>

fun checkMetaData :: "path \<Rightarrow> jsval \<Rightarrow> proto \<Rightarrow> diag list \<times> (error + bool)"
  and checkIndices :: "path \<Rightarrow> jsval list \<Rightarrow> nat \<Rightarrow> proto list \<Rightarrow> bool \<Rightarrow> diag list \<times> (error + bool)"
  and checkProps :: "path \<Rightarrow> jsval \<Rightarrow> (string \<times> proto) list \<Rightarrow> bool \<Rightarrow> diag list \<times> (error + bool)"
where
  "checkMetaData path data (POptional p) =
     (if data \<noteq> JUndefined then checkMetaData path data p else ([], Inr True))"
| "checkMetaData path data (PString s) =
     (if JStr s \<noteq> data
      then (if toString_throws data then ([], Inl TypeError)
            else ([WarnExpected path s data], Inr False))
      else ([], Inr True))"
| "checkMetaData path data (PArray ps) =
     (case data of
        JArr xs \<Rightarrow>
          (if length xs > length ps
           then (case checkIndices path xs 0 ps False of (w, r) \<Rightarrow>
                   (WarnNewElements path (length xs - length ps)
                      # map (\<lambda>idx. WarnNewElementAt idx (Some (xs ! idx))) [length ps..<length xs] @ w, r))
           else checkIndices path xs 0 ps True)
      | _ \<Rightarrow> ([WarnNotArray path data], Inr False))"
| "checkMetaData path data (PObject props) =
     (if isArray data \<or> typeof data \<noteq> ''object'' then ([WarnNotObject path data], Inr False)
      else checkProps path data props True)"
| "checkIndices path xs idx [] ok = ([], Inr ok)"
| "checkIndices path xs idx (p # ps) ok =
     (case checkMetaData (fst path, snd path @ [AtIndex idx]) (slot xs idx) p of
        (w, Inl e) \<Rightarrow> (w, Inl e)
      | (w, Inr b) \<Rightarrow>
          (case checkIndices path xs (Suc idx) ps (b \<and> ok) of (w', r) \<Rightarrow> (w @ w', r)))"
| "checkProps path data [] ok = ([], Inr ok)"
| "checkProps path data ((prop, p) # props) ok =
     (case getprop data prop of
        Inl e \<Rightarrow> ([], Inl e)
      | Inr v \<Rightarrow>
          (case checkMetaData (fst path, snd path @ [AtProp prop]) v p of
             (w, Inl e) \<Rightarrow> (w, Inl e)
           | (w, Inr b) \<Rightarrow>
               (case checkProps path data props (b \<and> ok) of (w', r) \<Rightarrow> (w @ w', r))))"

text \<open>
  \<^verbatim>\<open>parseInfoFromSnapshot(data)\<close> on the unchecked document: the two lengths as they are
  read, \<^verbatim>\<open>data.snapshot.meta.node_fields.length\<close> first.
\<close>

definition parseInfoFromDocument :: "jsval \<Rightarrow> (error + rat option \<times> rat option) option" where
  "parseInfoFromDocument data =
     thenS (getprop data ''snapshot'') (\<lambda>snapshot.
     thenS (getprop snapshot ''meta'') (\<lambda>meta.
     thenS (getprop meta ''node_fields'') (\<lambda>node_fields.
     thenL (js_length node_fields) (\<lambda>nodeFieldCount.
     thenS (getprop meta ''edge_fields'') (\<lambda>edge_fields.
     thenL (js_length edge_fields) (\<lambda>edgeFieldCount.
     Some (Inr (nodeFieldCount, edgeFieldCount))))))))"

text \<open>\<^verbatim>\<open>x >= 6\<close> on a length: false when the length is not a number.\<close>

definition ge_num :: "rat option \<Rightarrow> rat \<Rightarrow> bool" where
  "ge_num x c = (case x of None \<Rightarrow> False | Some q \<Rightarrow> q \<ge> c)"

text \<open>\<^verbatim>\<open>count * len\<close>: \<^verbatim>\<open>NaN\<close> (\<open>None\<close>) when an operand is not a number.\<close>

definition times_num :: "jsval \<Rightarrow> rat option \<Rightarrow> rat option" where
  "times_num count len =
     (case (count, len) of (JNum c, Some l) \<Rightarrow> Some (c * l) | _ \<Rightarrow> None)"

text \<open>
  \<^verbatim>\<open>Sanity.check\<close>, lines 152 to 177: the assertions made before the meta descriptor is
  compared with its template. It returns \<^verbatim>\<open>meta\<close>.
\<close>

definition check_structure :: "jsval \<Rightarrow> (error + jsval) option" where
  "check_structure data =
     thenS (assertObject ''data'' data) (\<lambda>_.
     thenS (getprop data ''nodes'') (\<lambda>nodes.
     thenS (assertArray ''data.nodes'' nodes) (\<lambda>_.
     thenS (getprop data ''edges'') (\<lambda>edges.
     thenS (assertArray ''data.edges'' edges) (\<lambda>_.
     thenS (getprop data ''strings'') (\<lambda>strings.
     thenS (assertArray ''data.strings'' strings) (\<lambda>_.
     thenS (getprop data ''trace_function_infos'') (\<lambda>trace_function_infos.
     thenS (assertArray ''data.trace_function_infos'' trace_function_infos) (\<lambda>_.
     thenS (getprop data ''trace_tree'') (\<lambda>trace_tree.
     thenS (assertArray ''data.trace_tree'' trace_tree) (\<lambda>_.
     thenS (getprop data ''samples'') (\<lambda>samples.
     thenS (assertArray ''data.samples'' samples) (\<lambda>_.
     thenS (getprop data ''snapshot'') (\<lambda>snapshot.
     thenS (getprop snapshot ''node_count'') (\<lambda>node_count.
     thenS (assertInteger ''data.snapshot.node_count'' node_count) (\<lambda>_.
     thenS (getprop snapshot ''edge_count'') (\<lambda>edge_count.
     thenS (assertInteger ''data.snapshot.edge_count'' edge_count) (\<lambda>_.
     thenS (getprop snapshot ''trace_function_count'') (\<lambda>trace_function_count.
     thenS (assertInteger ''data.snapshot.trace_function_count'' trace_function_count) (\<lambda>_.
     thenS (getprop snapshot ''meta'') (\<lambda>meta.
     thenS (assertObject ''data.snapshot.meta'' meta) (\<lambda>_.
     thenS (getprop meta ''node_fields'') (\<lambda>node_fields.
     thenL (js_length node_fields) (\<lambda>node_fields_length.
     thenS (getprop meta ''node_types'') (\<lambda>node_types.
     thenL (js_length node_types) (\<lambda>node_types_length.
     thenS (assertX ''data.snapshot.meta.node_fields must have same length as data.snapshot.meta.node_types''
              (node_fields_length = node_types_length)) (\<lambda>_.
     thenS (getprop meta ''edge_fields'') (\<lambda>edge_fields.
     thenL (js_length edge_fields) (\<lambda>edge_fields_length.
     thenS (getprop meta ''edge_types'') (\<lambda>edge_types.
     thenL (js_length edge_types) (\<lambda>edge_types_length.
     thenS (assertX ''data.snapshot.meta.edge_fields must have same length as data.snapshot.meta.edge_types''
              (edge_fields_length = edge_types_length)) (\<lambda>_.
     thenL (parseInfoFromDocument data) (\<lambda>(nodeFieldCount, edgeFieldCount).
     thenS (assertX ''expected at least 6 node fields'' (ge_num nodeFieldCount 6)) (\<lambda>_.
     thenS (assertLength ''edge fields'' edgeFieldCount (Some 3)) (\<lambda>_.
     Some (Inr meta))))))))))))))))))))))))))))))))))))"

text \<open>\<^verbatim>\<open>Sanity.check\<close>, lines 185 to 188: the element counts of the three bulk arrays.\<close>

definition check_counts :: "jsval \<Rightarrow> (error + unit) option" where
  "check_counts data =
     thenS (getprop data ''snapshot'') (\<lambda>snapshot.
     thenS (getprop snapshot ''meta'') (\<lambda>meta.
     thenS (getprop data ''nodes'') (\<lambda>nodes.
     thenL (js_length nodes) (\<lambda>nodes_length.
     thenS (getprop snapshot ''node_count'') (\<lambda>node_count.
     thenS (getprop meta ''node_fields'') (\<lambda>node_fields.
     thenL (js_length node_fields) (\<lambda>node_fields_length.
     thenS (assertLength ''node elements'' nodes_length (times_num node_count node_fields_length)) (\<lambda>_.
     thenS (getprop data ''edges'') (\<lambda>edges.
     thenL (js_length edges) (\<lambda>edges_length.
     thenS (getprop snapshot ''edge_count'') (\<lambda>edge_count.
     thenS (getprop meta ''edge_fields'') (\<lambda>edge_fields.
     thenL (js_length edge_fields) (\<lambda>edge_fields_length.
     thenS (assertLength ''edge elements'' edges_length (times_num edge_count edge_fields_length)) (\<lambda>_.
     thenS (getprop data ''trace_function_infos'') (\<lambda>trace_function_infos.
     thenL (js_length trace_function_infos) (\<lambda>trace_function_infos_length.
     thenS (getprop snapshot ''trace_function_count'') (\<lambda>trace_function_count.
     thenS (getprop meta ''trace_function_info_fields'') (\<lambda>trace_function_info_fields.
     thenL (js_length trace_function_info_fields) (\<lambda>trace_function_info_fields_length.
     Some (assertLength ''trace function elements'' trace_function_infos_length
             (times_num trace_function_count trace_function_info_fields_length)))))))))))))))))))))"

text \<open>
  \<^verbatim>\<open>Sanity.check(data)\<close>: what it prints and whether it throws, \<open>None\<close> when the run reads
  a length that is not modelled. The comparison with the template (line 179) and its two
  \<^verbatim>\<open>console.error\<close> lines stand between the two groups of assertions.
\<close>

definition check :: "jsval \<Rightarrow> (diag list \<times> (error + unit)) option" where
  "check data =
     (case check_structure data of
        None \<Rightarrow> None
      | Some (Inl e) \<Rightarrow> Some ([], Inl e)
      | Some (Inr meta) \<Rightarrow>
          (case checkMetaData (''data.snapshot.meta'', []) meta metaDataProto of
             (w, Inl e) \<Rightarrow> Some (w, Inl e)
           | (w, Inr ok) \<Rightarrow>
               (case check_counts data of
                  None \<Rightarrow> None
                | Some r \<Rightarrow>
                    Some (w @ (if \<not> ok then [ErrorFormatChanged, ErrorContinuing] else []), r))))"

section \<open>The typed document and the decoded graph\<close>

text \<open>
  The decoder proper is written against \<^verbatim>\<open>RawSnapshotData\<close>: \<^verbatim>\<open>nodes\<close> and \<^verbatim>\<open>edges\<close> are
  \<^verbatim>\<open>number[]\<close>, \<^verbatim>\<open>strings\<close> is \<^verbatim>\<open>string[]\<close>, and element 0 of \<^verbatim>\<open>meta.node_types\<close> and of
  \<^verbatim>\<open>meta.edge_types\<close> is a list of type names. The record holds the fields the decoder
  reads; \<open>node_types\<close> and \<open>edge_types\<close> are \<^verbatim>\<open>meta.node_types[0]\<close> and
  \<^verbatim>\<open>meta.edge_types[0]\<close>.
\<close>

record RawSnapshotData =
  node_fields :: "jsval list"
  node_types :: "string list"
  edge_fields :: "jsval list"
  edge_types :: "string list"
  node_count :: rat
  nodes :: "rat list"
  edges :: "rat list"
  strings :: "string list"

record ParseInfo =
  nodeFieldCount :: nat
  edgeFieldCount :: nat

definition hasDetachedness :: "RawSnapshotData \<Rightarrow> bool" where
  "hasDetachedness data = (length (node_fields data) \<ge> 7)"

definition parseInfoFromSnapshot :: "RawSnapshotData \<Rightarrow> ParseInfo" where
  "parseInfoFromSnapshot data =
     \<lparr>nodeFieldCount = length (node_fields data), edgeFieldCount = length (edge_fields data)\<rparr>"

text \<open>
  \<^verbatim>\<open>NodeImpl\<close> and \<^verbatim>\<open>EdgeImpl\<close>. The fields \<^verbatim>\<open>type\<close>, \<^verbatim>\<open>name\<close>, \<^verbatim>\<open>id\<close>, \<^verbatim>\<open>from\<close> and \<^verbatim>\<open>to\<close>
  carry a prefix. A field read from an absent array slot is \<^verbatim>\<open>undefined\<close>, here \<open>None\<close>.
  A node is referred to by its position in the node array, an edge by its position in the
  array of decoded edges: \<open>out_edges\<close> and \<open>in_edges\<close> hold edge references, \<open>edge_from\<close>
  and \<open>edge_to\<close> node references.
\<close>

record NodeImpl =
  node_type :: "string option"
  node_name :: "string option"
  node_id :: "rat option"
  self_size :: "rat option"
  edge_count :: "rat option"
  trace_node_id :: "rat option"
  detached :: "bool option"
  out_edges :: "nat list"
  in_edges :: "nat list"

record EdgeImpl =
  edge_type :: "string option"
  edge_name :: jsval
  edge_from :: nat
  edge_to :: nat

section \<open>Node decoding\<close>

definition access :: "rat list \<Rightarrow> nat \<Rightarrow> nat \<Rightarrow> nat \<Rightarrow> (rat option \<Rightarrow> 'a) \<Rightarrow> 'a option" where
  "access arr idx baseIdx len f =
     (if int idx - int baseIdx < int len then Some (f (elem_at arr idx)) else None)"

text \<open>The body of the loop of \<^verbatim>\<open>parseNodes\<close>: the node built for one \<^verbatim>\<open>nodeIndex\<close>.\<close>

definition decode_node :: "RawSnapshotData \<Rightarrow> ParseInfo \<Rightarrow> nat \<Rightarrow> NodeImpl" where
  "decode_node data parseInfo nodeIndex =
     (let baseIndex = nodeIndex * nodeFieldCount parseInfo in
      \<lparr>node_type = index (node_types data) (elem_at (nodes data) baseIndex),
       node_name = index (strings data) (elem_at (nodes data) (baseIndex + 1)),
       node_id = elem_at (nodes data) (baseIndex + 2),
       self_size = elem_at (nodes data) (baseIndex + 3),
       edge_count = elem_at (nodes data) (baseIndex + 4),
       trace_node_id = elem_at (nodes data) (baseIndex + 5),
       detached = access (nodes data) (baseIndex + 6) baseIndex (nodeFieldCount parseInfo)
                    (\<lambda>num. num = Some 1),
       out_edges = [],
       in_edges = []\<rparr>)"

function parseNodes_loop ::
  "RawSnapshotData \<Rightarrow> ParseInfo \<Rightarrow> nat \<Rightarrow> NodeImpl list \<Rightarrow> NodeImpl list" where
  "parseNodes_loop data parseInfo nodeIndex result =
     (if of_nat nodeIndex < node_count data
      then parseNodes_loop data parseInfo (Suc nodeIndex)
             (result @ [decode_node data parseInfo nodeIndex])
      else result)"
  by pat_completeness auto
termination
proof (relation "measure (\<lambda>(data, parseInfo, nodeIndex, result). nat \<lceil>node_count data\<rceil> - nodeIndex)")
  show "wf (measure (\<lambda>(data, parseInfo, nodeIndex, result). nat \<lceil>node_count data\<rceil> - nodeIndex))"
    by simp
next
  fix data :: RawSnapshotData and parseInfo :: ParseInfo and nodeIndex :: nat
    and result :: "NodeImpl list"
  assume "of_nat nodeIndex < node_count data"
  then have "int nodeIndex < \<lceil>node_count data\<rceil>"
    by (simp add: less_ceiling_iff)
  then show "((data, parseInfo, Suc nodeIndex, result @ [decode_node data parseInfo nodeIndex]),
              (data, parseInfo, nodeIndex, result))
             \<in> measure (\<lambda>(data, parseInfo, nodeIndex, result). nat \<lceil>node_count data\<rceil> - nodeIndex)"
    by simp
qed

definition parseNodes :: "RawSnapshotData \<Rightarrow> ParseInfo \<Rightarrow> NodeImpl list" where
  "parseNodes data parseInfo = parseNodes_loop data parseInfo 0 []"

section \<open>Edge decoding and wiring\<close>

text \<open>
  The largest magnitude that double arithmetic rounds to zero: \<open>1 / 2 ^ 1075\<close>, half of the
  least positive double (the denominator is written as a numeral).
\<close>

definition underflow :: rat where
  "underflow =
     1 / 404804506614621236704990693437834614099113299528284236713802716054860679135990693783920767402874248990374155728633623822779617474771586953734026799881477019843034848553132722728933815484186432682479535356945490137124014966849385397236206711298319112681620113024717539104666829230461005064372655017292012526615415482186989568"

text \<open>
  \<^verbatim>\<open>x / nodeFieldCount\<close>, for its use as an array index: not a number when \<open>x\<close> is
  \<^verbatim>\<open>undefined\<close>, and no index after a division by zero. The quotient of two doubles is
  rounded to a double. A quotient of magnitude at most \<open>underflow\<close> is rounded to zero (the
  tie goes to the even neighbour, zero), so that \<^verbatim>\<open>nodes[5e-324 / 6]\<close> is \<^verbatim>\<open>nodes[0]\<close>. Any
  other quotient is rounded to a natural number \<open>k\<close> below the length of an array only when
  it is \<open>k\<close> exactly: there the exact quotient is kept.
\<close>

definition div_num :: "rat option \<Rightarrow> nat \<Rightarrow> rat option" where
  "div_num x n =
     (case x of
        None \<Rightarrow> None
      | Some q \<Rightarrow>
          if n = 0 then None
          else if \<bar>q / of_nat n\<bar> \<le> underflow then Some 0
          else Some (q / of_nat n))"

text \<open>\<^verbatim>\<open>a < b\<close> for a loop counter and a bound read from the document.\<close>

definition lt_num :: "nat \<Rightarrow> rat option \<Rightarrow> bool" where
  "lt_num k x = (case x of None \<Rightarrow> False | Some q \<Rightarrow> of_nat k < q)"

definition name_or_index :: "string list \<Rightarrow> string option \<Rightarrow> rat option \<Rightarrow> error + jsval" where
  "name_or_index strs type i =
     (if type = Some ''element'' \<or> type = Some ''hidden''
      then Inr (case i of Some q \<Rightarrow> JNum q | None \<Rightarrow> JUndefined)
      else if ge_num i (of_nat (length strs)) then Inl InvalidStringIndex
      else Inr (case index strs i of Some s \<Rightarrow> JStr s | None \<Rightarrow> JUndefined))"

text \<open>
  The state of \<^verbatim>\<open>parseAndWireEdges\<close>: the cursor \<^verbatim>\<open>edgeIndex\<close>, the array \<^verbatim>\<open>result\<close>, and
  the node objects, whose \<^verbatim>\<open>out_edges\<close> and \<^verbatim>\<open>in_edges\<close> the loop extends in place.
\<close>

record WireState =
  edgeIndex :: nat
  result :: "EdgeImpl list"
  heap :: "NodeImpl list"

definition push_out :: "NodeImpl list \<Rightarrow> nat \<Rightarrow> nat \<Rightarrow> NodeImpl list" where
  "push_out ns n e = ns[n := (ns ! n)\<lparr>out_edges := out_edges (ns ! n) @ [e]\<rparr>]"

definition push_in :: "NodeImpl list \<Rightarrow> nat \<Rightarrow> nat \<Rightarrow> NodeImpl list" where
  "push_in ns n e = ns[n := (ns ! n)\<lparr>in_edges := in_edges (ns ! n) @ [e]\<rparr>]"

text \<open>
  The body of the inner loop (lines 365 to 372) for the node \<open>from_node\<close>. When
  \<^verbatim>\<open>nodes[...]\<close> is \<^verbatim>\<open>undefined\<close>, the statement \<^verbatim>\<open>to_node.in_edges.push(edge)\<close> throws; what
  was pushed before is lost with the whole decode, so the model throws at once.
\<close>

definition wire_edge :: "RawSnapshotData \<Rightarrow> ParseInfo \<Rightarrow> nat \<Rightarrow> WireState \<Rightarrow> error + WireState" where
  "wire_edge data parseInfo from_node st =
     (let k = edgeIndex st;
          type = index (edge_types data) (elem_at (edges data) k)
      in thenE (name_or_index (strings data) type (elem_at (edges data) (k + 1))) (\<lambda>name.
           case ref_at (heap st) (div_num (elem_at (edges data) (k + 2)) (nodeFieldCount parseInfo)) of
             None \<Rightarrow> Inl TypeError
           | Some to_node \<Rightarrow>
               (let edge = \<lparr>edge_type = type, edge_name = name,
                              edge_from = from_node, edge_to = to_node\<rparr>;
                    e = length (result st)
                in Inr \<lparr>edgeIndex = k + 3,
                        result = result st @ [edge],
                        heap = push_in (push_out (heap st) from_node e) to_node e\<rparr>)))"

lemma nth_push_out:
  "push_out ns i e ! m =
     (if m = i \<and> i < length ns then (ns ! i)\<lparr>out_edges := out_edges (ns ! i) @ [e]\<rparr> else ns ! m)"
  by (cases "i < length ns") (auto simp: push_out_def list_update_beyond)

lemma nth_push_in:
  "push_in ns i e ! m =
     (if m = i \<and> i < length ns then (ns ! i)\<lparr>in_edges := in_edges (ns ! i) @ [e]\<rparr> else ns ! m)"
  by (cases "i < length ns") (auto simp: push_in_def list_update_beyond)

lemma length_push [simp]:
  "length (push_out ns i e) = length ns" "length (push_in ns i e) = length ns"
  by (simp_all add: push_out_def push_in_def)

lemma wire_edge_edge_count:
  assumes "wire_edge data parseInfo n st = Inr st'"
  shows "edge_count (heap st' ! m) = edge_count (heap st ! m)"
  using assms
  by (auto simp: wire_edge_def Let_def nth_push_out nth_push_in
      split: sum.splits option.splits elim!: thenE.elims)

text \<open>The inner loop: \<^verbatim>\<open>for (edgeCount = 0; edgeCount < from_node.edge_count; ++edgeCount)\<close>.\<close>

function wire_node ::
  "RawSnapshotData \<Rightarrow> ParseInfo \<Rightarrow> nat \<Rightarrow> nat \<Rightarrow> WireState \<Rightarrow> error + WireState" where
  "wire_node data parseInfo from_node edgeCount st =
     (if lt_num edgeCount (edge_count (heap st ! from_node))
      then (case wire_edge data parseInfo from_node st of
              Inl err \<Rightarrow> Inl err
            | Inr st' \<Rightarrow> wire_node data parseInfo from_node (Suc edgeCount) st')
      else Inr st)"
  by pat_completeness auto
termination
proof (relation "measure (\<lambda>(data, parseInfo, from_node, edgeCount, st).
          (case edge_count (heap st ! from_node) of None \<Rightarrow> 0 | Some c \<Rightarrow> nat \<lceil>c\<rceil>) - edgeCount)")
  show "wf (measure (\<lambda>(data, parseInfo, from_node, edgeCount, st).
          (case edge_count (heap st ! from_node) of None \<Rightarrow> 0 | Some c \<Rightarrow> nat \<lceil>c\<rceil>) - edgeCount))"
    by simp
next
  fix data :: RawSnapshotData and parseInfo :: ParseInfo and from_node edgeCount :: nat
    and st st' :: WireState
  assume lt: "lt_num edgeCount (edge_count (heap st ! from_node))"
    and step: "wire_edge data parseInfo from_node st = Inr st'"
  from lt obtain c where c: "edge_count (heap st ! from_node) = Some c" "of_nat edgeCount < c"
    by (auto simp: lt_num_def split: option.splits)
  from c(2) have "int edgeCount < \<lceil>c\<rceil>"
    by (simp add: less_ceiling_iff)
  moreover have "edge_count (heap st' ! from_node) = Some c"
    using wire_edge_edge_count [OF step] c(1) by simp
  ultimately show "((data, parseInfo, from_node, Suc edgeCount, st'),
                    (data, parseInfo, from_node, edgeCount, st))
      \<in> measure (\<lambda>(data, parseInfo, from_node, edgeCount, st).
          (case edge_count (heap st ! from_node) of None \<Rightarrow> 0 | Some c \<Rightarrow> nat \<lceil>c\<rceil>) - edgeCount)"
    using c(1) by simp
qed

text \<open>\<^verbatim>\<open>nodes.forEach\<close>: the node references in order.\<close>

fun wire_nodes ::
  "RawSnapshotData \<Rightarrow> ParseInfo \<Rightarrow> nat list \<Rightarrow> WireState \<Rightarrow> error + WireState" where
  "wire_nodes data parseInfo [] st = Inr st"
| "wire_nodes data parseInfo (from_node # rest) st =
     (case wire_node data parseInfo from_node 0 st of
        Inl err \<Rightarrow> Inl err
      | Inr st' \<Rightarrow> wire_nodes data parseInfo rest st')"

text \<open>
  \<^verbatim>\<open>parseAndWireEdges(data, nodes, parseInfo)\<close> returns \<^verbatim>\<open>result\<close>; the node objects it was
  given have been extended, so the model returns them too.
\<close>

definition parseAndWireEdges ::
  "RawSnapshotData \<Rightarrow> NodeImpl list \<Rightarrow> ParseInfo \<Rightarrow> error + EdgeImpl list \<times> NodeImpl list" where
  "parseAndWireEdges data ns parseInfo =
     (case wire_nodes data parseInfo [0..<length ns] \<lparr>edgeIndex = 0, result = [], heap = ns\<rparr> of
        Inl err \<Rightarrow> Inl err
      | Inr st \<Rightarrow> Inr (result st, heap st))"

section \<open>The graph container: \<^verbatim>\<open>SnapshotImpl\<close>\<close>

text \<open>
  \<^verbatim>\<open>idToNodeMapping\<close> is a \<^verbatim>\<open>Map\<close>: a list of bindings in insertion order, with one binding
  for a key; \<^verbatim>\<open>set\<close> on a key that is present replaces its value. The private fields
  \<^verbatim>\<open>_global\<close> and \<^verbatim>\<open>_modules\<close> are \<open>cached_global\<close> and \<open>cached_modules\<close>, \<open>None\<close> being
  \<^verbatim>\<open>undefined\<close>.
\<close>

record SnapshotImpl =
  snapshot_nodes :: "NodeImpl list"
  snapshot_edges :: "EdgeImpl list"
  snapshot_hasDetachedness :: bool
  idToNodeMapping :: "(rat option \<times> nat) list"
  cached_global :: "nat option"
  cached_modules :: "nat list option"

text \<open>The constructor: \<^verbatim>\<open>nodes.forEach(node => this.idToNodeMapping.set(node.id, node))\<close>.\<close>

definition new_SnapshotImpl :: "NodeImpl list \<Rightarrow> EdgeImpl list \<Rightarrow> bool \<Rightarrow> SnapshotImpl" where
  "new_SnapshotImpl ns es hasDet =
     \<lparr>snapshot_nodes = ns,
      snapshot_edges = es,
      snapshot_hasDetachedness = hasDet,
      idToNodeMapping = fold (\<lambda>node m. AList.update (node_id (ns ! node)) node m) [0..<length ns] [],
      cached_global = None,
      cached_modules = None\<rparr>"

definition findNodeById :: "SnapshotImpl \<Rightarrow> rat option \<Rightarrow> nat option" where
  "findNodeById s i = map_of (idToNodeMapping s) i"

text \<open>
  The getter \<^verbatim>\<open>global\<close>: its outcome and the snapshot afterwards. A node object is truthy,
  so \<^verbatim>\<open>!this._global\<close> holds exactly when the field is \<^verbatim>\<open>undefined\<close>; when \<^verbatim>\<open>find\<close> returns
  \<^verbatim>\<open>undefined\<close> the field is assigned \<^verbatim>\<open>undefined\<close> again and the getter throws.
\<close>

definition get_global :: "SnapshotImpl \<Rightarrow> (error + nat) \<times> SnapshotImpl" where
  "get_global s =
     (case cached_global s of
        Some g \<Rightarrow> (Inr g, s)
      | None \<Rightarrow>
          (case List.find (\<lambda>node. node_name (snapshot_nodes s ! node) = Some ''global / '')
                  [0..<length (snapshot_nodes s)] of
             None \<Rightarrow> (Inl GlobalNotFound, s)
           | Some g \<Rightarrow> (Inr g, s\<lparr>cached_global := Some g\<rparr>)))"

text \<open>The getter \<^verbatim>\<open>modules\<close>. An array is truthy even when empty.\<close>

definition get_modules :: "SnapshotImpl \<Rightarrow> nat list \<times> SnapshotImpl" where
  "get_modules s =
     (case cached_modules s of
        Some ms \<Rightarrow> (ms, s)
      | None \<Rightarrow>
          (let ms = filter (\<lambda>node. node_name (snapshot_nodes s ! node) = Some ''Module''
                                   \<and> node_type (snapshot_nodes s ! node) = Some ''object'')
                      [0..<length (snapshot_nodes s)]
           in (ms, s\<lparr>cached_modules := Some ms\<rparr>)))"

section \<open>\<^verbatim>\<open>parseSnapshot\<close>\<close>

text \<open>
  The cast \<^verbatim>\<open><RawSnapshotData>arg1\<close>, made explicit: the typed view of a document whose
  bulk arrays and type lists hold what \<^verbatim>\<open>RawSnapshotData\<close> declares, \<open>None\<close> for any other.
\<close>

fun as_number :: "jsval \<Rightarrow> rat option" where
  "as_number (JNum q) = Some q"
| "as_number v = None"

fun as_string :: "jsval \<Rightarrow> string option" where
  "as_string (JStr s) = Some s"
| "as_string v = None"

fun as_array :: "jsval \<Rightarrow> jsval list option" where
  "as_array (JArr xs) = Some xs"
| "as_array v = None"

fun field :: "jsval \<Rightarrow> string \<Rightarrow> jsval option" where
  "field (JObj kvs) p = map_of kvs p"
| "field v p = None"

definition as_numbers :: "jsval \<Rightarrow> rat list option" where
  "as_numbers v = do { xs \<leftarrow> as_array v; those (map as_number xs) }"

definition as_strings :: "jsval \<Rightarrow> string list option" where
  "as_strings v = do { xs \<leftarrow> as_array v; those (map as_string xs) }"

definition first_as_strings :: "jsval list \<Rightarrow> string list option" where
  "first_as_strings xs = (case xs of [] \<Rightarrow> None | x # _ \<Rightarrow> as_strings x)"

definition asRaw :: "jsval \<Rightarrow> RawSnapshotData option" where
  "asRaw arg1 = do {
     snapshot \<leftarrow> field arg1 ''snapshot'';
     meta \<leftarrow> field snapshot ''meta'';
     nf \<leftarrow> field meta ''node_fields'';
     nf \<leftarrow> as_array nf;
     nt \<leftarrow> field meta ''node_types'';
     nt \<leftarrow> as_array nt;
     nt0 \<leftarrow> first_as_strings nt;
     ef \<leftarrow> field meta ''edge_fields'';
     ef \<leftarrow> as_array ef;
     et \<leftarrow> field meta ''edge_types'';
     et \<leftarrow> as_array et;
     et0 \<leftarrow> first_as_strings et;
     nc \<leftarrow> field snapshot ''node_count'';
     nc \<leftarrow> as_number nc;
     ns \<leftarrow> field arg1 ''nodes'';
     ns \<leftarrow> as_numbers ns;
     es \<leftarrow> field arg1 ''edges'';
     es \<leftarrow> as_numbers es;
     ss \<leftarrow> field arg1 ''strings'';
     ss \<leftarrow> as_strings ss;
     Some \<lparr>node_fields = nf, node_types = nt0, edge_fields = ef, edge_types = et0,
           node_count = nc, nodes = ns, edges = es, strings = ss\<rparr>
   }"

text \<open>Lines 402 to 406 of \<^verbatim>\<open>parseSnapshot\<close>: the decode of a document that passed the check.\<close>

definition buildSnapshot :: "RawSnapshotData \<Rightarrow> error + SnapshotImpl" where
  "buildSnapshot data =
     (let parseInfo = parseInfoFromSnapshot data;
          ns = parseNodes data parseInfo
      in case parseAndWireEdges data ns parseInfo of
           Inl err \<Rightarrow> Inl err
         | Inr (es, ns') \<Rightarrow> Inr (new_SnapshotImpl ns' es (hasDetachedness data)))"

text \<open>
  \<^verbatim>\<open>parseSnapshot(arg1)\<close> for an argument that is already a value (the third overload and
  the final \<^verbatim>\<open>else\<close>): what is printed, and the error thrown or the snapshot returned.
  Parsing a JSON text and reading a stream are not modelled, nor is a validation that
  reads a length outside the model, nor the decode of a document that passes the check
  without having the declared types; the result is \<open>None\<close> there.
\<close>

definition parseSnapshot :: "jsval \<Rightarrow> (diag list \<times> (error + SnapshotImpl)) option" where
  "parseSnapshot arg1 =
     (if typeof arg1 = ''string'' then None
      else if typeof arg1 \<noteq> ''object'' then Some ([], Inl (AssertError ''Illigal snapshot data!''))
      else (case check arg1 of
              None \<Rightarrow> None
            | Some (w, Inl err) \<Rightarrow> Some (w, Inl err)
            | Some (w, Inr _) \<Rightarrow>
                (case asRaw arg1 of
                   None \<Rightarrow> None
                 | Some data \<Rightarrow> Some (w, buildSnapshot data))))"

section \<open>Example documents\<close>

text \<open>
  A meta descriptor with the given node field names (the type list follows the field list),
  and a document around it with no trace functions.
\<close>

definition meta_of :: "string list \<Rightarrow> jsval" where
  "meta_of fs = JObj
     [(''node_fields'', JArr (map JStr fs)),
      (''node_types'', JArr (JArr (map JStr [''hidden'', ''array'', ''string'', ''object'', ''code'',
          ''closure'', ''regexp'', ''number'', ''native'', ''synthetic'', ''concatenated string'',
          ''sliced string'', ''symbol'', ''bigint''])
          # map (\<lambda>f. JStr (if f = ''name'' then ''string'' else ''number'')) (tl fs))),
      (''edge_fields'', JArr (map JStr [''type'', ''name_or_index'', ''to_node''])),
      (''edge_types'', JArr [JArr (map JStr [''context'', ''element'', ''property'', ''internal'',
          ''hidden'', ''shortcut'', ''weak'']), JStr ''string_or_number'', JStr ''node'']),
      (''trace_function_info_fields'', JArr (map JStr
          [''function_id'', ''name'', ''script_name'', ''script_id'', ''line'', ''column''])),
      (''trace_node_fields'', JArr (map JStr
          [''id'', ''function_info_index'', ''count'', ''size'', ''children''])),
      (''sample_fields'', JArr (map JStr [''timestamp_us'', ''last_assigned_id''])),
      (''location_fields'', JArr (map JStr [''object_index'', ''script_id'', ''line'', ''column'']))]"

definition fields6 :: "string list" where
  "fields6 = [''type'', ''name'', ''id'', ''self_size'', ''edge_count'', ''trace_node_id'']"

definition fields7 :: "string list" where
  "fields7 = fields6 @ [''detachedness'']"

definition document :: "jsval \<Rightarrow> rat \<Rightarrow> rat \<Rightarrow> rat list \<Rightarrow> rat list \<Rightarrow> string list \<Rightarrow> jsval" where
  "document meta nc ec ns es ss = JObj
     [(''snapshot'', JObj [(''meta'', meta), (''node_count'', JNum nc), (''edge_count'', JNum ec),
         (''trace_function_count'', JNum 0)]),
      (''nodes'', JArr (map JNum ns)),
      (''edges'', JArr (map JNum es)),
      (''strings'', JArr (map JStr ss)),
      (''trace_function_infos'', JArr []),
      (''trace_tree'', JArr []),
      (''samples'', JArr [])]"

text \<open>What \<^verbatim>\<open>parseSnapshot\<close> printed and returned, for a document it decodes.\<close>

definition printed :: "jsval \<Rightarrow> diag list" where
  "printed d = fst (the (parseSnapshot d))"

definition returned :: "jsval \<Rightarrow> SnapshotImpl" where
  "returned d = projr (snd (the (parseSnapshot d)))"

text \<open>
  The example of the specification: node A (an object named \<^verbatim>\<open>global / \<close>, one edge) and node
  B (a string named \<^verbatim>\<open>hi\<close>), with one \<^verbatim>\<open>property\<close> edge named \<^verbatim>\<open>x\<close> from A to B.
\<close>

definition doc_example :: jsval where
  "doc_example = document (meta_of fields6) 2 1
     [3, 0, 1, 10, 1, 0,  2, 1, 2, 20, 0, 0] [2, 2, 6] [''global / '', ''hi'', ''x'']"

text \<open>Two nodes with a seventh field, 1 in the first record and 0 in the second.\<close>

definition doc_detached :: jsval where
  "doc_detached = document (meta_of fields7) 2 0
     [3, 0, 1, 10, 0, 0, 1,  2, 1, 2, 20, 0, 0, 0] [] [''global / '', ''hi'']"

text \<open>Three nodes, the first two with the same id 7.\<close>

definition doc_duplicate_ids :: jsval where
  "doc_duplicate_ids = document (meta_of fields6) 3 0
     [3, 0, 7, 10, 0, 0,  2, 1, 7, 20, 0, 0,  2, 1, 8, 20, 0, 0] [] [''global / '', ''hi'']"

text \<open>A document with one node, not named \<^verbatim>\<open>global / \<close>.\<close>

definition doc_no_global :: jsval where
  "doc_no_global = document (meta_of fields6) 1 0 [2, 0, 1, 10, 0, 0] [] [''hi'']"

text \<open>The example document with the name field of its edge set to \<open>-1\<close>.\<close>

definition doc_negative_name :: jsval where
  "doc_negative_name = document (meta_of fields6) 2 1
     [3, 0, 1, 10, 1, 0,  2, 1, 2, 20, 0, 0] [2, -1, 6] [''global / '', ''hi'', ''x'']"

text \<open>One node whose type field is 99; the document lists 14 node types.\<close>

definition doc_bad_type :: jsval where
  "doc_bad_type = document (meta_of fields6) 1 0 [99, 0, 1, 10, 0, 0] [] [''hi'']"

text \<open>The example document with an \<^verbatim>\<open>internal\<close> edge whose name field is \<open>-2\<close>.\<close>

definition doc_negative_index :: jsval where
  "doc_negative_index = document (meta_of fields6) 2 1
     [3, 0, 1, 10, 1, 0,  2, 1, 2, 20, 0, 0] [3, -2, 6] [''global / '', ''hi'', ''x'']"

text \<open>
  The example document with B an array and the edge an \<^verbatim>\<open>element\<close> edge whose second field
  is 5, which is also an index into the string table.
\<close>

definition doc_element :: jsval where
  "doc_element = document (meta_of fields6) 2 1
     [3, 0, 1, 10, 1, 0,  1, 1, 2, 20, 0, 0] [1, 5, 6]
     [''global / '', ''hi'', ''a'', ''b'', ''c'', ''d'']"

text \<open>
  Two variants of the example document. In \<open>doc_leftover\<close> no node declares an edge while
  the edge array holds one record; in \<open>doc_overrun\<close> node A declares two edges while the
  edge array holds one record. Both pass the check, which compares the length of the edge
  array with \<^verbatim>\<open>snapshot.edge_count\<close> only.
\<close>

definition doc_leftover :: jsval where
  "doc_leftover = document (meta_of fields6) 2 1
     [3, 0, 1, 10, 0, 0,  2, 1, 2, 20, 0, 0] [2, 2, 6] [''global / '', ''hi'', ''x'']"

definition doc_overrun :: jsval where
  "doc_overrun = document (meta_of fields6) 2 1
     [3, 0, 1, 10, 2, 0,  2, 1, 2, 20, 0, 0] [2, 2, 6] [''global / '', ''hi'', ''x'']"

text \<open>One node that declares the edge count \<open>-1\<close>, and no edge record.\<close>

definition doc_negative_count :: jsval where
  "doc_negative_count = document (meta_of fields6) 1 0 [3, 0, 1, 10, - 1, 0] [] [''global / '']"


definition doc_drift_short :: jsval where
  "doc_drift_short = document (meta_of (fields7 @ [''extra''])) 1 0 [3, 0, 1, 10, 0, 0, 0] [] [''global / '']"



text \<open>
  The example document with its list of node field names replaced by the object
  \<^verbatim>\<open>{"length": "6"}\<close>.
\<close>

definition meta_length_text :: jsval where
  "meta_length_text = JObj
     [(''node_fields'', JObj [(''length'', JStr ''6'')]),
      (''node_types'', JArr (JArr (map JStr [''hidden'', ''array'', ''string'', ''object'', ''code'',
          ''closure'', ''regexp'', ''number'', ''native'', ''synthetic'', ''concatenated string'',
          ''sliced string'', ''symbol'', ''bigint''])
          # map JStr [''string'', ''number'', ''number'', ''number'', ''number''])),
      (''edge_fields'', JArr (map JStr [''type'', ''name_or_index'', ''to_node''])),
      (''edge_types'', JArr [JArr (map JStr [''context'', ''element'', ''property'', ''internal'',
          ''hidden'', ''shortcut'', ''weak'']), JStr ''string_or_number'', JStr ''node'']),
      (''trace_function_info_fields'', JArr (map JStr
          [''function_id'', ''name'', ''script_name'', ''script_id'', ''line'', ''column''])),
      (''trace_node_fields'', JArr (map JStr
          [''id'', ''function_info_index'', ''count'', ''size'', ''children''])),
      (''sample_fields'', JArr (map JStr [''timestamp_us'', ''last_assigned_id''])),
      (''location_fields'', JArr (map JStr [''object_index'', ''script_id'', ''line'', ''column'']))]"

definition doc_length_text :: jsval where
  "doc_length_text = document meta_length_text 2 1
     [3, 0, 1, 10, 1, 0,  2, 1, 2, 20, 0, 0] [2, 2, 6] [''global / '', ''hi'', ''x'']"

text \<open>A document whose descriptor declares two edge fields (and two edge types).\<close>

definition meta_two_edge_fields :: jsval where
  "meta_two_edge_fields = JObj
     [(''node_fields'', JArr (map JStr fields6)),
      (''node_types'', JArr (map JStr fields6)),
      (''edge_fields'', JArr [JStr ''type'', JStr ''to_node'']),
      (''edge_types'', JArr [JStr ''type'', JStr ''node'']),
      (''trace_function_info_fields'', JArr [])]"

definition doc_two_edge_fields :: jsval where
  "doc_two_edge_fields = document meta_two_edge_fields 0 0 [] [] []"

section \<open>Notions used to state and prove the properties\<close>

text \<open>
  The number of passes of a loop \<^verbatim>\<open>for (k = 0; k < c; ++k)\<close> over a bound \<open>c\<close> read from the
  document: none when \<open>c\<close> is \<^verbatim>\<open>undefined\<close>, the least natural number not below \<open>c\<close> otherwise.
\<close>

definition iterations :: "rat option \<Rightarrow> nat" where
  "iterations c = (case c of None \<Rightarrow> 0 | Some q \<Rightarrow> nat \<lceil>q\<rceil>)"

text \<open>A declared count that is a natural number.\<close>

definition is_count :: "rat option \<Rightarrow> bool" where
  "is_count c = (case c of None \<Rightarrow> False | Some q \<Rightarrow> 0 \<le> q \<and> is_int q)"

text \<open>
  Node \<open>n\<close> of \<open>ns\<close> with its adjacency lists set to the edges of \<open>es\<close> that leave it and
  that reach it, in the order of \<open>es\<close>.
\<close>

definition adjacent :: "NodeImpl list \<Rightarrow> EdgeImpl list \<Rightarrow> nat \<Rightarrow> NodeImpl" where
  "adjacent ns es n =
     (ns ! n)\<lparr>out_edges := filter (\<lambda>e. edge_from (es ! e) = n) [0..<length es],
              in_edges := filter (\<lambda>e. edge_to (es ! e) = n) [0..<length es]\<rparr>"

text \<open>Edge \<open>ed\<close> is what the loop body builds from the record that starts at \<open>3 * e\<close>.\<close>

definition decoded_edge :: "RawSnapshotData \<Rightarrow> ParseInfo \<Rightarrow> NodeImpl list \<Rightarrow> nat \<Rightarrow> EdgeImpl \<Rightarrow> bool" where
  "decoded_edge data parseInfo ns e ed \<longleftrightarrow>
     edge_type ed = index (edge_types data) (elem_at (edges data) (3 * e)) \<and>
     name_or_index (strings data) (edge_type ed) (elem_at (edges data) (3 * e + 1)) = Inr (edge_name ed) \<and>
     ref_at ns (div_num (elem_at (edges data) (3 * e + 2)) (nodeFieldCount parseInfo)) = Some (edge_to ed) \<and>
     3 * e + 2 < length (edges data)"

text \<open>
  The invariant of the two loops of \<^verbatim>\<open>parseAndWireEdges\<close>, started on the nodes \<open>ns\<close>: the
  cursor stands after the records of the edges built so far and within the edge array,
  the node objects are the nodes of \<open>ns\<close> with these edges in their adjacency lists, and
  every edge built so far comes from its record and joins two of the nodes.
\<close>

definition wire_inv :: "RawSnapshotData \<Rightarrow> ParseInfo \<Rightarrow> NodeImpl list \<Rightarrow> WireState \<Rightarrow> bool" where
  "wire_inv data parseInfo ns st \<longleftrightarrow>
     length (heap st) = length ns \<and>
     edgeIndex st = 3 * length (result st) \<and>
     edgeIndex st \<le> length (edges data) \<and>
     (\<forall>n < length ns. heap st ! n = adjacent ns (result st) n) \<and>
     (\<forall>e < length (result st). edge_from (result st ! e) < length ns \<and>
         edge_to (result st ! e) < length ns \<and>
         decoded_edge data parseInfo ns e (result st ! e))"

text \<open>Nodes as \<^verbatim>\<open>parseNodes\<close> returns them, with empty adjacency lists.\<close>

definition fresh :: "NodeImpl list \<Rightarrow> bool" where
  "fresh ns = list_all (\<lambda>n. out_edges n = [] \<and> in_edges n = []) ns"

text \<open>The nodes named \<^verbatim>\<open>global / \<close>, in decode order.\<close>

definition global_named :: "NodeImpl list \<Rightarrow> nat list" where
  "global_named ns = filter (\<lambda>node. node_name (ns ! node) = Some ''global / '') [0..<length ns]"



text \<open>
  The number of times that \<open>n\<close> accesses to \<^verbatim>\<open>global\<close>, made one after the other, call
  \<^verbatim>\<open>nodes.find\<close> (line 299): an access calls it when it finds \<^verbatim>\<open>_global\<close> undefined.
  Likewise for \<^verbatim>\<open>modules\<close> and \<^verbatim>\<open>nodes.filter\<close> (line 310).
\<close>

fun global_searches :: "nat \<Rightarrow> SnapshotImpl \<Rightarrow> nat" where
  "global_searches 0 s = 0"
| "global_searches (Suc n) s =
     (if cached_global s = None then 1 else 0) + global_searches n (snd (get_global s))"

fun modules_filters :: "nat \<Rightarrow> SnapshotImpl \<Rightarrow> nat" where
  "modules_filters 0 s = 0"
| "modules_filters (Suc n) s =
     (if cached_modules s = None then 1 else 0) + modules_filters n (snd (get_modules s))"

section \<open>The hard assertions, as the specification lists them\<close>

text \<open>
  The conditions of the specification, stated on the document itself: \<open>member\<close> is the
  value under a key of an object (\<^verbatim>\<open>undefined\<close> for anything else), \<open>list_length\<close> the number
  of entries of a field list or bulk array (of characters, for a text in the place of a
  list; the number under its key \<^verbatim>\<open>length\<close>, for an object in the place of a list; none
  for anything else). \<open>spec_structure\<close> collects the assertions on the root, the bulk
  arrays, the declared counts and the field lists; \<open>spec_counts\<close> is the agreement of each
  bulk array's length with declared record count times declared field count.
\<close>

definition member :: "jsval \<Rightarrow> string \<Rightarrow> jsval" where
  "member v p =
     (case v of
        JObj kvs \<Rightarrow> (case map_of kvs p of Some x \<Rightarrow> x | None \<Rightarrow> JUndefined)
      | _ \<Rightarrow> JUndefined)"

definition list_length :: "jsval \<Rightarrow> rat option" where
  "list_length v =
     (case v of
        JArr xs \<Rightarrow> Some (of_nat (length xs))
      | JStr s \<Rightarrow> Some (of_nat (length s))
      | JObj kvs \<Rightarrow> (case map_of kvs ''length'' of Some (JNum q) \<Rightarrow> Some q | _ \<Rightarrow> None)
      | _ \<Rightarrow> None)"

definition is_object :: "jsval \<Rightarrow> bool" where
  "is_object v = (case v of JObj kvs \<Rightarrow> True | _ \<Rightarrow> False)"

definition spec_structure :: "jsval \<Rightarrow> bool" where
  "spec_structure d =
     (let snapshot = member d ''snapshot''; meta = member snapshot ''meta'' in
      is_object d \<and>
      isArray (member d ''nodes'') \<and> isArray (member d ''edges'') \<and>
      isArray (member d ''strings'') \<and> isArray (member d ''trace_function_infos'') \<and>
      isInteger (member snapshot ''node_count'') \<and> isInteger (member snapshot ''edge_count'') \<and>
      isInteger (member snapshot ''trace_function_count'') \<and>
      list_length (member meta ''node_fields'') = list_length (member meta ''node_types'') \<and>
      list_length (member meta ''edge_fields'') = list_length (member meta ''edge_types'') \<and>
      ge_num (list_length (member meta ''node_fields'')) 6 \<and>
      list_length (member meta ''edge_fields'') = Some 3)"

definition count_matches :: "jsval \<Rightarrow> jsval \<Rightarrow> jsval \<Rightarrow> bool" where
  "count_matches bulk declared_count field_list =
     (times_num declared_count (list_length field_list) \<noteq> None \<and>
      list_length bulk = times_num declared_count (list_length field_list))"

definition spec_counts :: "jsval \<Rightarrow> bool" where
  "spec_counts d =
     (let snapshot = member d ''snapshot''; meta = member snapshot ''meta'' in
      count_matches (member d ''nodes'') (member snapshot ''node_count'') (member meta ''node_fields'') \<and>
      count_matches (member d ''edges'') (member snapshot ''edge_count'') (member meta ''edge_fields'') \<and>
      count_matches (member d ''trace_function_infos'') (member snapshot ''trace_function_count'')
        (member meta ''trace_function_info_fields''))"




section \<open>Properties of the decoder\<close>

text \<open>
  The end-to-end example of the specification: the nodes A and B, the edge from A to B in
  the \<^verbatim>\<open>out_edges\<close> of A and the \<^verbatim>\<open>in_edges\<close> of B, and A as the global object.
\<close>

lemma end_to_end_example:
  "parseSnapshot doc_example =
     Some ([],
       Inr \<lparr>snapshot_nodes =
              [\<lparr>node_type = Some ''object'', node_name = Some ''global / '', node_id = Some 1,
                self_size = Some 10, edge_count = Some 1, trace_node_id = Some 0, detached = None,
                out_edges = [0], in_edges = []\<rparr>,
               \<lparr>node_type = Some ''string'', node_name = Some ''hi'', node_id = Some 2,
                self_size = Some 20, edge_count = Some 0, trace_node_id = Some 0, detached = None,
                out_edges = [], in_edges = [0]\<rparr>],
            snapshot_edges =
              [\<lparr>edge_type = Some ''property'', edge_name = JStr ''x'', edge_from = 0, edge_to = 1\<rparr>],
            snapshot_hasDetachedness = False,
            idToNodeMapping = [(Some 1, 0), (Some 2, 1)],
            cached_global = None,
            cached_modules = None\<rparr>)"
  by code_simp

lemma end_to_end_global: "fst (get_global (returned doc_example)) = Inr 0"
  by code_simp

declare parseNodes_loop.simps [simp del]
declare wire_node.simps [simp del]

lemma lt_num_iterations: "lt_num k c \<longleftrightarrow> k < iterations c"
  by (cases c) (auto simp: lt_num_def iterations_def less_ceiling_iff nat_less_iff zless_nat_eq_int_zless)

lemma parseNodes_loop_eq:
  "parseNodes_loop data parseInfo i res =
     res @ map (decode_node data parseInfo) [i..<nat \<lceil>node_count data\<rceil>]"
proof (induction data parseInfo i res rule: parseNodes_loop.induct)
  case (1 data parseInfo nodeIndex result)
  show ?case
  proof (cases "of_nat nodeIndex < node_count data")
    case True
    then have "nodeIndex < nat \<lceil>node_count data\<rceil>"
      by (simp add: less_ceiling_iff zless_nat_eq_int_zless)
    then have "[nodeIndex..<nat \<lceil>node_count data\<rceil>]
                 = nodeIndex # [Suc nodeIndex..<nat \<lceil>node_count data\<rceil>]"
      by (simp add: upt_conv_Cons)
    with True 1 show ?thesis
      by (subst parseNodes_loop.simps) simp
  next
    case False
    then have "\<not> nodeIndex < nat \<lceil>node_count data\<rceil>"
      by (simp add: less_ceiling_iff zless_nat_eq_int_zless)
    with False show ?thesis
      by (subst parseNodes_loop.simps) simp
  qed
qed

lemma parseNodes_eq:
  "parseNodes data parseInfo = map (decode_node data parseInfo) [0..<nat \<lceil>node_count data\<rceil>]"
  by (simp add: parseNodes_def parseNodes_loop_eq)

lemma thenE_Inr_iff: "thenE m f = Inr y \<longleftrightarrow> (\<exists>x. m = Inr x \<and> f x = Inr y)"
  by (cases m) auto

lemma thenS_Inr_iff: "thenS m f = Some (Inr y) \<longleftrightarrow> (\<exists>x. m = Inr x \<and> f x = Some (Inr y))"
  by (cases m) auto

lemma thenL_Inr_iff:
  "thenL m f = Some (Inr y) \<longleftrightarrow> (\<exists>x. m = Some (Inr x) \<and> f x = Some (Inr y))"
  by (cases m) (auto simp: thenS_Inr_iff)

lemma ref_at_Some: "ref_at xs i = Some k \<Longrightarrow> k < length xs"
  by (auto simp: ref_at_def split: option.splits if_splits)

lemma ref_at_length_cong: "length xs = length ys \<Longrightarrow> ref_at xs i = ref_at ys i"
  by (cases i) (simp_all add: ref_at_def)

lemma ref_at_div_num: "ref_at xs (div_num x n) = Some k \<Longrightarrow> x \<noteq> None"
  by (cases x) (auto simp: div_num_def ref_at_def)

lemma elem_at_Some_iff: "elem_at xs k \<noteq> None \<longleftrightarrow> k < length xs"
  by (simp add: elem_at_def)

lemma wire_edge_Inr:
  assumes "wire_edge data parseInfo from_node st = Inr st'"
  obtains name to_node where
    "name_or_index (strings data) (index (edge_types data) (elem_at (edges data) (edgeIndex st)))
        (elem_at (edges data) (edgeIndex st + 1)) = Inr name"
    "ref_at (heap st) (div_num (elem_at (edges data) (edgeIndex st + 2)) (nodeFieldCount parseInfo))
        = Some to_node"
    "st' = \<lparr>edgeIndex = edgeIndex st + 3,
            result = result st @ [\<lparr>edge_type = index (edge_types data) (elem_at (edges data) (edgeIndex st)),
                                  edge_name = name, edge_from = from_node, edge_to = to_node\<rparr>],
            heap = push_in (push_out (heap st) from_node (length (result st))) to_node
                     (length (result st))\<rparr>"
  using assms
  by (auto simp: wire_edge_def Let_def thenE_Inr_iff split: option.splits)

lemma filter_upt_append_cong:
  "filter (\<lambda>e. f ((es @ [ed]) ! e) = n) [0..<length es] = filter (\<lambda>e. f (es ! e) = (n::nat)) [0..<length es]"
  by (rule filter_cong) (auto simp: nth_append)

lemma adjacent_append:
  "adjacent ns (es @ [ed]) n =
     (adjacent ns es n)\<lparr>out_edges := out_edges (adjacent ns es n) @ (if edge_from ed = n then [length es] else []),
                        in_edges := in_edges (adjacent ns es n) @ (if edge_to ed = n then [length es] else [])\<rparr>"
  by (simp add: adjacent_def filter_upt_append_cong)

lemma wire_edge_inv:
  assumes inv: "wire_inv data parseInfo ns st"
    and from_node: "from_node < length ns"
    and step: "wire_edge data parseInfo from_node st = Inr st'"
  shows "wire_inv data parseInfo ns st'"
    and "\<exists>ed. result st' = result st @ [ed] \<and> edge_from ed = from_node"
proof -
  from step obtain name to_node where
    name: "name_or_index (strings data) (index (edge_types data) (elem_at (edges data) (edgeIndex st)))
        (elem_at (edges data) (edgeIndex st + 1)) = Inr name"
    and to_node: "ref_at (heap st) (div_num (elem_at (edges data) (edgeIndex st + 2)) (nodeFieldCount parseInfo))
        = Some to_node"
    and st': "st' = \<lparr>edgeIndex = edgeIndex st + 3,
            result = result st @ [\<lparr>edge_type = index (edge_types data) (elem_at (edges data) (edgeIndex st)),
                                  edge_name = name, edge_from = from_node, edge_to = to_node\<rparr>],
            heap = push_in (push_out (heap st) from_node (length (result st))) to_node
                     (length (result st))\<rparr>"
    by (rule wire_edge_Inr)
  let ?ed = "\<lparr>edge_type = index (edge_types data) (elem_at (edges data) (edgeIndex st)),
              edge_name = name, edge_from = from_node, edge_to = to_node\<rparr>"
  let ?L = "length (result st)"
  from inv have len: "length (heap st) = length ns"
    and idx: "edgeIndex st = 3 * ?L"
    and adj: "\<And>n. n < length ns \<Longrightarrow> heap st ! n = adjacent ns (result st) n"
    and old: "\<And>e. e < ?L \<Longrightarrow> edge_from (result st ! e) < length ns \<and>
         edge_to (result st ! e) < length ns \<and> decoded_edge data parseInfo ns e (result st ! e)"
    by (auto simp: wire_inv_def)
  from to_node have to_lt: "to_node < length ns"
    using ref_at_Some len by fastforce
  from to_node have "elem_at (edges data) (edgeIndex st + 2) \<noteq> None"
    by (rule ref_at_div_num)
  then have bound: "edgeIndex st + 2 < length (edges data)"
    unfolding elem_at_Some_iff .
  have dec: "decoded_edge data parseInfo ns ?L ?ed"
    using name to_node bound idx ref_at_length_cong [OF len]
    by (simp add: decoded_edge_def)
  show "\<exists>ed. result st' = result st @ [ed] \<and> edge_from ed = from_node"
    by (simp add: st')
  have heap': "\<And>n. n < length ns \<Longrightarrow> heap st' ! n = adjacent ns (result st') n"
  proof -
    fix n assume n: "n < length ns"
    have "heap st' ! n = push_in (push_out (heap st) from_node ?L) to_node ?L ! n"
      by (simp add: st')
    also have "\<dots> = adjacent ns (result st @ [?ed]) n"
      using n from_node to_lt len adj [OF n] adj [OF from_node] adj [OF to_lt]
      by (auto simp: nth_push_in nth_push_out adjacent_append)
    finally show "heap st' ! n = adjacent ns (result st') n"
      by (simp add: st')
  qed
  have edges': "\<And>e. e < length (result st') \<Longrightarrow> edge_from (result st' ! e) < length ns \<and>
         edge_to (result st' ! e) < length ns \<and> decoded_edge data parseInfo ns e (result st' ! e)"
  proof -
    fix e assume "e < length (result st')"
    then have "e < ?L \<or> e = ?L" by (auto simp: st')
    then show "edge_from (result st' ! e) < length ns \<and>
         edge_to (result st' ! e) < length ns \<and> decoded_edge data parseInfo ns e (result st' ! e)"
    proof
      assume "e < ?L"
      then show ?thesis using old [of e] by (simp add: st' nth_append)
    next
      assume "e = ?L"
      then show ?thesis using dec from_node to_lt by (simp add: st')
    qed
  qed
  show "wire_inv data parseInfo ns st'"
    unfolding wire_inv_def
  proof (intro conjI allI impI)
    show "length (heap st') = length ns" by (simp add: st' len)
    show "edgeIndex st' = 3 * length (result st')" by (simp add: st' idx)
    show "edgeIndex st' \<le> length (edges data)" using bound by (simp add: st')
  qed (use heap' edges' in blast)+
qed

lemma edge_count_adjacent [simp]: "edge_count (adjacent ns es n) = edge_count (ns ! n)"
  by (simp add: adjacent_def)

lemma wire_inv_edge_count:
  "wire_inv data parseInfo ns st \<Longrightarrow> n < length ns \<Longrightarrow> edge_count (heap st ! n) = edge_count (ns ! n)"
  by (simp add: wire_inv_def)

lemma wire_node_inv:
  assumes "wire_inv data parseInfo ns st"
    and "from_node < length ns"
    and "wire_node data parseInfo from_node edgeCount st = Inr st'"
  shows "wire_inv data parseInfo ns st' \<and>
         (\<exists>eds. result st' = result st @ eds \<and>
            map edge_from eds =
              replicate (iterations (edge_count (ns ! from_node)) - edgeCount) from_node)"
  using assms
proof (induction data parseInfo from_node edgeCount st rule: wire_node.induct)
  case (1 data parseInfo from_node edgeCount st)
  have ec: "edge_count (heap st ! from_node) = edge_count (ns ! from_node)"
    using "1.prems"(1,2) by (rule wire_inv_edge_count)
  show ?case
  proof (cases "lt_num edgeCount (edge_count (heap st ! from_node))")
    case False
    then have "st' = st"
      using "1.prems"(3) by (subst (asm) wire_node.simps) simp
    moreover from False have "iterations (edge_count (ns ! from_node)) - edgeCount = 0"
      by (simp add: lt_num_iterations ec)
    ultimately show ?thesis
      using "1.prems"(1) by simp
  next
    case True
    then obtain st1 where st1: "wire_edge data parseInfo from_node st = Inr st1"
      and rest: "wire_node data parseInfo from_node (Suc edgeCount) st1 = Inr st'"
      using "1.prems"(3) by (subst (asm) wire_node.simps) (auto split: sum.splits)
    have inv1: "wire_inv data parseInfo ns st1"
      using "1.prems"(1,2) st1 by (rule wire_edge_inv(1))
    obtain ed where ed: "result st1 = result st @ [ed]" "edge_from ed = from_node"
      using wire_edge_inv(2) [OF "1.prems"(1,2) st1] by blast
    from "1.IH" [OF True st1 inv1 "1.prems"(2) rest]
    obtain eds where inv': "wire_inv data parseInfo ns st'"
      and eds: "result st' = result st1 @ eds"
        "map edge_from eds = replicate (iterations (edge_count (ns ! from_node)) - Suc edgeCount) from_node"
      by blast
    from True have "edgeCount < iterations (edge_count (ns ! from_node))"
      by (simp add: lt_num_iterations ec)
    then have "iterations (edge_count (ns ! from_node)) - edgeCount
                 = Suc (iterations (edge_count (ns ! from_node)) - Suc edgeCount)"
      by simp
    then have "map edge_from (ed # eds) =
                 replicate (iterations (edge_count (ns ! from_node)) - edgeCount) from_node"
      using ed(2) eds(2) by simp
    moreover have "result st' = result st @ (ed # eds)"
      using ed(1) eds(1) by simp
    ultimately show ?thesis
      using inv' by blast
  qed
qed

lemma wire_nodes_inv:
  assumes "wire_inv data parseInfo ns st"
    and "\<forall>n \<in> set froms. n < length ns"
    and "wire_nodes data parseInfo froms st = Inr st'"
  shows "wire_inv data parseInfo ns st' \<and>
         map edge_from (result st') =
           map edge_from (result st) @
           concat (map (\<lambda>n. replicate (iterations (edge_count (ns ! n))) n) froms)"
  using assms
proof (induction froms arbitrary: st)
  case Nil
  then show ?case by simp
next
  case (Cons n froms)
  from Cons.prems(3) obtain st1 where st1: "wire_node data parseInfo n 0 st = Inr st1"
    and rest: "wire_nodes data parseInfo froms st1 = Inr st'"
    by (auto split: sum.splits)
  from Cons.prems(2) have n: "n < length ns" and froms: "\<forall>n \<in> set froms. n < length ns"
    by simp_all
  from wire_node_inv [OF Cons.prems(1) n st1]
  obtain eds where inv1: "wire_inv data parseInfo ns st1"
    and eds: "result st1 = result st @ eds"
      "map edge_from eds = replicate (iterations (edge_count (ns ! n))) n"
    by auto
  from Cons.IH [OF inv1 froms rest] eds show ?case
    by simp
qed

lemma wire_inv_initial:
  assumes "fresh ns"
  shows "wire_inv data parseInfo ns \<lparr>edgeIndex = 0, result = [], heap = ns\<rparr>"
  using assms
  by (auto simp: wire_inv_def fresh_def adjacent_def list_all_length)

lemma parseAndWireEdges_Inr:
  assumes "fresh ns"
    and "parseAndWireEdges data ns parseInfo = Inr (es, ns')"
  shows "length ns' = length ns"
    and "\<And>n. n < length ns \<Longrightarrow> ns' ! n = adjacent ns es n"
    and "\<And>e. e < length es \<Longrightarrow> edge_from (es ! e) < length ns \<and> edge_to (es ! e) < length ns
                \<and> decoded_edge data parseInfo ns e (es ! e)"
    and "map edge_from es = concat (map (\<lambda>n. replicate (iterations (edge_count (ns ! n))) n) [0..<length ns])"
    and "3 * length es \<le> length (edges data)"
proof -
  from assms(2) obtain st where
    st: "wire_nodes data parseInfo [0..<length ns] \<lparr>edgeIndex = 0, result = [], heap = ns\<rparr> = Inr st"
    and eq: "es = result st" "ns' = heap st"
    by (auto simp: parseAndWireEdges_def split: sum.splits)
  have "\<forall>n \<in> set [0..<length ns]. n < length ns" by simp
  from wire_nodes_inv [OF wire_inv_initial [OF assms(1)] this st]
  have inv: "wire_inv data parseInfo ns st"
    and froms: "map edge_from (result st) =
           concat (map (\<lambda>n. replicate (iterations (edge_count (ns ! n))) n) [0..<length ns])"
    by simp_all
  show "length ns' = length ns" using inv eq by (simp add: wire_inv_def)
  show "\<And>n. n < length ns \<Longrightarrow> ns' ! n = adjacent ns es n"
    using inv eq by (simp add: wire_inv_def)
  show "\<And>e. e < length es \<Longrightarrow> edge_from (es ! e) < length ns \<and> edge_to (es ! e) < length ns
                \<and> decoded_edge data parseInfo ns e (es ! e)"
    using inv eq by (simp add: wire_inv_def)
  show "map edge_from es = concat (map (\<lambda>n. replicate (iterations (edge_count (ns ! n))) n) [0..<length ns])"
    using froms eq by simp
  show "3 * length es \<le> length (edges data)"
    using inv eq by (simp add: wire_inv_def)
qed

lemma fresh_parseNodes: "fresh (parseNodes data parseInfo)"
  by (simp add: fresh_def parseNodes_eq list_all_iff decode_node_def Let_def)

lemma field_getprop: "field d p = Some v \<Longrightarrow> getprop d p = Inr v"
  by (cases d) auto

lemma as_array_js_length:
  "as_array v = Some xs \<Longrightarrow> js_length v = Some (Inr (Some (of_nat (length xs))))"
  by (cases v) auto

lemma as_number_JNum: "as_number v = Some q \<Longrightarrow> v = JNum q"
  by (cases v) auto

lemma those_map_length: "those (map f xs) = Some ys \<Longrightarrow> length ys = length xs"
  by (induction xs arbitrary: ys) (auto split: option.splits)

lemma as_numbers_js_length:
  "as_numbers v = Some xs \<Longrightarrow> js_length v = Some (Inr (Some (of_nat (length xs))))"
  by (cases v) (auto simp: as_numbers_def dest: those_map_length)

lemma check_Inr:
  assumes "check d = Some (w, Inr ())"
  obtains meta where "check_structure d = Some (Inr meta)" "check_counts d = Some (Inr ())"
  using assms by (auto simp: check_def split: option.splits sum.splits prod.splits)

lemma check_structure_typed:
  assumes "check_structure d = Some (Inr meta)" and "asRaw d = Some data"
  shows "is_int (node_count data)" and "6 \<le> length (node_fields data)"
    and "length (edge_fields data) = 3"
proof -
  from assms(2) obtain snapshot meta' nf nc ef where
    f: "field d ''snapshot'' = Some snapshot" "field snapshot ''meta'' = Some meta'"
       "field meta' ''node_fields'' = Some nf" "as_array nf = Some (node_fields data)"
       "field meta' ''edge_fields'' = Some ef" "as_array ef = Some (edge_fields data)"
       "field snapshot ''node_count'' = Some nc" "as_number nc = Some (node_count data)"
    by (auto simp: asRaw_def split: Option.bind_splits)
  note g = f(1,2,3,5,7) [THEN field_getprop] f(4,6) [THEN as_array_js_length]
    f(8) [THEN as_number_JNum]
  from assms(1) have "isInteger nc \<and> ge_num (Some (of_nat (length (node_fields data)))) 6
      \<and> Some (rat_of_nat (length (edge_fields data))) = Some 3"
    unfolding check_structure_def thenS_Inr_iff thenL_Inr_iff parseInfoFromDocument_def
    by (auto simp: g thenS_Inr_iff thenL_Inr_iff assertInteger_def assertLength_def
        split: if_splits)
  then show "is_int (node_count data)" and "6 \<le> length (node_fields data)"
    and "length (edge_fields data) = 3"
    using g(8) by (simp_all add: ge_num_def)
qed

lemma check_counts_typed:
  assumes "check_counts d = Some (Inr ())" and "asRaw d = Some data"
  shows "of_nat (length (nodes data)) = node_count data * of_nat (length (node_fields data))"
proof -
  from assms(2) obtain snapshot meta' nf nc ns where
    f: "field d ''snapshot'' = Some snapshot" "field snapshot ''meta'' = Some meta'"
       "field meta' ''node_fields'' = Some nf" "field snapshot ''node_count'' = Some nc"
       "field d ''nodes'' = Some ns"
       "as_array nf = Some (node_fields data)"
       "as_number nc = Some (node_count data)" "as_numbers ns = Some (nodes data)"
    by (auto simp: asRaw_def split: Option.bind_splits)
  note g = f(1,2,3,4,5) [THEN field_getprop] f(6) [THEN as_array_js_length]
    f(7) [THEN as_number_JNum] f(8) [THEN as_numbers_js_length]
  from assms(1) have "Some (rat_of_nat (length (nodes data)))
        = times_num nc (Some (of_nat (length (node_fields data))))"
    unfolding check_counts_def thenS_Inr_iff thenL_Inr_iff
    by (auto simp: g thenS_Inr_iff thenL_Inr_iff assertLength_def split: if_splits)
  then show ?thesis
    using g(7) by (simp add: times_num_def)
qed

lemma parseSnapshot_Inr:
  assumes "parseSnapshot d = Some (w, Inr s)"
  obtains data es ns' where "asRaw d = Some data" "check d = Some (w, Inr ())"
    "parseAndWireEdges data (parseNodes data (parseInfoFromSnapshot data))
       (parseInfoFromSnapshot data) = Inr (es, ns')"
    "s = new_SnapshotImpl ns' es (hasDetachedness data)"
  using assms
  by (auto simp: parseSnapshot_def buildSnapshot_def Let_def
      split: if_splits prod.splits sum.splits option.splits)

lemma checked_node_count:
  assumes "check d = Some (w, Inr ())" and "asRaw d = Some data"
  shows "node_count data = of_nat (nat \<lceil>node_count data\<rceil>)"
    and "length (nodes data) = nat \<lceil>node_count data\<rceil> * length (node_fields data)"
proof -
  from assms(1) obtain meta where
    c: "check_structure d = Some (Inr meta)" "check_counts d = Some (Inr ())"
    by (rule check_Inr)
  note s = check_structure_typed [OF c(1) assms(2)]
  note n = check_counts_typed [OF c(2) assms(2)]
  have "0 < length (node_fields data)"
    using s(2) by linarith
  then have pos: "0 < rat_of_nat (length (node_fields data))"
    by (simp only: of_nat_0_less_iff)
  have "0 \<le> node_count data * rat_of_nat (length (node_fields data))"
    using n [symmetric] by simp
  then have nonneg: "0 \<le> node_count data"
    using pos by (simp add: zero_le_mult_iff)
  from s(1) have "rat_of_int \<lceil>node_count data\<rceil> = node_count data"
    unfolding is_int_def by (metis ceiling_of_int)
  then show nc: "node_count data = of_nat (nat \<lceil>node_count data\<rceil>)"
    using nonneg by (metis ceiling_mono ceiling_zero of_int_of_nat_eq of_nat_nat)
  have "rat_of_nat (length (nodes data))
          = rat_of_nat (nat \<lceil>node_count data\<rceil> * length (node_fields data))"
    using n nc by (metis of_nat_mult)
  then show "length (nodes data) = nat \<lceil>node_count data\<rceil> * length (node_fields data)"
    using of_nat_eq_iff by blast
qed

lemma parseSnapshot_nodes:
  assumes "parseSnapshot d = Some (w, Inr s)" and "asRaw d = Some data"
  shows "length (snapshot_nodes s) = nat \<lceil>node_count data\<rceil>"
    and "\<And>k. k < length (snapshot_nodes s) \<Longrightarrow>
           snapshot_nodes s ! k =
             adjacent (parseNodes data (parseInfoFromSnapshot data)) (snapshot_edges s) k"
proof -
  from assms obtain es ns' where
    w: "parseAndWireEdges data (parseNodes data (parseInfoFromSnapshot data))
          (parseInfoFromSnapshot data) = Inr (es, ns')"
    and s: "s = new_SnapshotImpl ns' es (hasDetachedness data)"
    by (auto elim!: parseSnapshot_Inr)
  note r = parseAndWireEdges_Inr [OF fresh_parseNodes w]
  show len: "length (snapshot_nodes s) = nat \<lceil>node_count data\<rceil>"
    using r(1) by (simp add: s new_SnapshotImpl_def parseNodes_eq)
  show "\<And>k. k < length (snapshot_nodes s) \<Longrightarrow>
           snapshot_nodes s ! k =
             adjacent (parseNodes data (parseInfoFromSnapshot data)) (snapshot_edges s) k"
    using r(1,2) by (simp add: s new_SnapshotImpl_def)
qed

lemma decode_node_detached:
  "detached (decode_node data parseInfo k) =
     (if 6 < nodeFieldCount parseInfo
      then Some (elem_at (nodes data) (k * nodeFieldCount parseInfo + 6) = Some 1) else None)"
  by (simp add: decode_node_def Let_def access_def)

lemma detached_adjacent [simp]: "detached (adjacent ns es n) = detached (ns ! n)"
  by (simp add: adjacent_def)

section \<open>Detachedness (claim C6)\<close>

text \<open>
  Claim C6. The capability flag of a decoded snapshot is true exactly when the document's
  node field count is at least 7. With a 6-field layout every decoded node's \<^verbatim>\<open>detached\<close> is
  absent; with a 7-field layout the \<^verbatim>\<open>detached\<close> of node \<open>k\<close> is present and is true exactly
  when the seventh stored value of record \<open>k\<close> equals 1 (so a stored 0 gives false).
\<close>

theorem detachedness_decoding:
  assumes "parseSnapshot d = Some (w, Inr s)" and "asRaw d = Some data"
  shows "snapshot_hasDetachedness s = (7 \<le> length (node_fields data)) \<and>
         (length (node_fields data) = 6 \<longrightarrow>
            (\<forall>k < length (snapshot_nodes s). detached (snapshot_nodes s ! k) = None)) \<and>
         (length (node_fields data) = 7 \<longrightarrow>
            (\<forall>k < length (snapshot_nodes s).
               detached (snapshot_nodes s ! k) = Some (nodes data ! (7 * k + 6) = 1)))"
proof -
  let ?pi = "parseInfoFromSnapshot data"
  from assms have chk: "check d = Some (w, Inr ())"
    by (auto elim!: parseSnapshot_Inr)
  note len = parseSnapshot_nodes(1) [OF assms]
  have det: "detached (snapshot_nodes s ! k) = detached (decode_node data ?pi k)"
    if "k < length (snapshot_nodes s)" for k
    using that parseSnapshot_nodes(2) [OF assms that] len by (simp add: parseNodes_eq)
  have flag: "snapshot_hasDetachedness s = (7 \<le> length (node_fields data))"
    using assms by (auto elim!: parseSnapshot_Inr simp: new_SnapshotImpl_def hasDetachedness_def)
  have six: "detached (snapshot_nodes s ! k) = None"
    if "length (node_fields data) = 6" "k < length (snapshot_nodes s)" for k
    using that det [OF that(2)] by (simp add: decode_node_detached parseInfoFromSnapshot_def)
  have seven: "detached (snapshot_nodes s ! k) = Some (nodes data ! (7 * k + 6) = 1)"
    if "length (node_fields data) = 7" "k < length (snapshot_nodes s)" for k
  proof -
    have "length (nodes data) = nat \<lceil>node_count data\<rceil> * 7"
      using checked_node_count(2) [OF chk assms(2)] that(1) by simp
    then have "k * 7 + 6 < length (nodes data)"
      using that(2) len by simp
    then show ?thesis
      using that(1) det [OF that(2)]
      by (simp add: decode_node_detached parseInfoFromSnapshot_def elem_at_def mult.commute)
  qed
  from flag six seven show ?thesis by blast
qed

theorem detachedness_decoding_witness:
  "snapshot_hasDetachedness (returned doc_detached) \<and>
   detached (snapshot_nodes (returned doc_detached) ! 0) = Some True \<and>
   detached (snapshot_nodes (returned doc_detached) ! 1) = Some False \<and>
   \<not> snapshot_hasDetachedness (returned doc_example) \<and>
   detached (snapshot_nodes (returned doc_example) ! 0) = None"
proof -
  have h1: "parseSnapshot doc_detached = Some (printed doc_detached, Inr (returned doc_detached))"
    by code_simp
  have h2: "asRaw doc_detached = Some (the (asRaw doc_detached))"
    by code_simp
  have h3: "length (node_fields (the (asRaw doc_detached))) = 7"
    "length (snapshot_nodes (returned doc_detached)) = 2"
    "nodes (the (asRaw doc_detached)) ! 6 = 1" "nodes (the (asRaw doc_detached)) ! 13 = 0"
    by code_simp+
  have g1: "parseSnapshot doc_example = Some (printed doc_example, Inr (returned doc_example))"
    by code_simp
  have g2: "asRaw doc_example = Some (the (asRaw doc_example))"
    by code_simp
  have g3: "length (node_fields (the (asRaw doc_example))) = 6"
    "length (snapshot_nodes (returned doc_example)) = 2"
    by code_simp+
  from detachedness_decoding [OF h1 h2] detachedness_decoding [OF g1 g2] h3 g3
  show ?thesis by simp
qed

section \<open>Lookup by id (claim C10)\<close>

lemma map_of_fold_update:
  "map_of (fold (\<lambda>k m. AList.update (f k) k m) ks m0) i =
     (if filter (\<lambda>k. f k = i) ks = [] then map_of m0 i
      else Some (last (filter (\<lambda>k. f k = i) ks)))"
proof (induction ks arbitrary: m0)
  case Nil
  then show ?case by simp
next
  case (Cons k ks)
  show ?case
    by (simp add: Cons.IH update_conv')
qed

text \<open>
  Claim C10. The constructor accepts any node sequence, nodes with equal ids included
  (it is total and keeps the sequence), and \<^verbatim>\<open>findNodeById\<close> returns, among the nodes whose
  id is the one asked for, the one that comes last in decode order: each
  \<^verbatim>\<open>idToNodeMapping.set\<close> replaces the entry an earlier node with that id left. An id that no
  node has is not found.
\<close>

theorem findNodeById_last:
  "snapshot_nodes (new_SnapshotImpl ns es h) = ns \<and>
   findNodeById (new_SnapshotImpl ns es h) i =
     (if filter (\<lambda>k. node_id (ns ! k) = i) [0..<length ns] = [] then None
      else Some (last (filter (\<lambda>k. node_id (ns ! k) = i) [0..<length ns])))"
  by (simp add: findNodeById_def new_SnapshotImpl_def map_of_fold_update)

theorem findNodeById_last_witness:
  "parseSnapshot doc_duplicate_ids = Some ([], Inr (returned doc_duplicate_ids)) \<and>
   map node_id (snapshot_nodes (returned doc_duplicate_ids)) = [Some 7, Some 7, Some 8] \<and>
   findNodeById (returned doc_duplicate_ids) (Some 7) = Some 1"
proof -
  have h: "parseSnapshot doc_duplicate_ids = Some ([], Inr (returned doc_duplicate_ids))"
    by code_simp
  have n: "map node_id (snapshot_nodes (returned doc_duplicate_ids)) = [Some 7, Some 7, Some 8]"
    by code_simp
  have r: "returned doc_duplicate_ids =
           new_SnapshotImpl (snapshot_nodes (returned doc_duplicate_ids))
             (snapshot_edges (returned doc_duplicate_ids))
             (snapshot_hasDetachedness (returned doc_duplicate_ids))"
    by code_simp
  have f: "filter (\<lambda>k. node_id (snapshot_nodes (returned doc_duplicate_ids) ! k) = Some 7)
             [0..<length (snapshot_nodes (returned doc_duplicate_ids))] = [0, 1]"
    by code_simp
  have "findNodeById (returned doc_duplicate_ids) (Some 7) = Some 1"
    using findNodeById_last [of "snapshot_nodes (returned doc_duplicate_ids)"
        "snapshot_edges (returned doc_duplicate_ids)"
        "snapshot_hasDetachedness (returned doc_duplicate_ids)" "Some 7"] r f
    by simp
  with h n show ?thesis by simp
qed

section \<open>The lazy views \<^verbatim>\<open>global\<close> and \<^verbatim>\<open>modules\<close> (claim C8)\<close>

lemma find_filter: "List.find P xs = (if filter P xs = [] then None else Some (hd (filter P xs)))"
  by (induction xs) auto

lemma global_searches_cached: "cached_global s = Some g \<Longrightarrow> global_searches n s = 0"
  by (induction n) (simp_all add: get_global_def)

lemma modules_filters_cached: "cached_modules s = Some ms \<Longrightarrow> modules_filters n s = 0"
  by (induction n) (simp_all add: get_modules_def)

lemma global_searches_not_found:
  "cached_global s = None \<Longrightarrow> global_named (snapshot_nodes s) = [] \<Longrightarrow> global_searches n s = n"
  by (induction n) (simp_all add: get_global_def find_filter global_named_def)

text \<open>
  Claim C8 as stated fails for \<^verbatim>\<open>global\<close>: the snapshot of \<open>doc_no_global\<close> has no node named
  \<^verbatim>\<open>global / \<close>, an access throws and leaves \<^verbatim>\<open>_global\<close> undefined, and two accesses search the
  nodes twice: the view is computed at every access, not at most once.
\<close>

theorem global_not_found_counterexample:
  "parseSnapshot doc_no_global = Some ([], Inr (returned doc_no_global)) \<and>
   get_global (returned doc_no_global) = (Inl GlobalNotFound, returned doc_no_global) \<and>
   cached_global (snd (get_global (returned doc_no_global))) = None \<and>
   global_searches 2 (returned doc_no_global) = 2"
proof (intro conjI)
  show "parseSnapshot doc_no_global = Some ([], Inr (returned doc_no_global))"
    by code_simp
  show "get_global (returned doc_no_global) = (Inl GlobalNotFound, returned doc_no_global)"
    by code_simp
  show "cached_global (snd (get_global (returned doc_no_global))) = None"
    by code_simp
  show "global_searches 2 (returned doc_no_global) = 2"
    by code_simp
qed

text \<open>
  Claim C8, amended. Once \<^verbatim>\<open>global\<close> has returned a node it is stored, and every later access
  returns that same node and leaves the snapshot as it is, whatever the node sequence then
  holds. The same holds of \<^verbatim>\<open>modules\<close>, also when the list is empty. Any number \<open>n\<close> of
  accesses to \<^verbatim>\<open>modules\<close> filter the nodes at most once, and when a node named \<^verbatim>\<open>global / \<close>
  exists any number of accesses to \<^verbatim>\<open>global\<close> search the nodes at most once. On a new
  snapshot with no node named \<^verbatim>\<open>global / \<close> the access to \<^verbatim>\<open>global\<close> throws the not-found error
  (the constructor itself never throws) and \<open>n\<close> accesses search \<open>n\<close> times; otherwise the
  access returns the first such node. \<^verbatim>\<open>modules\<close> returns the nodes named \<^verbatim>\<open>Module\<close> of type
  \<^verbatim>\<open>object\<close>, in decode order, and cannot throw.
\<close>

theorem lazy_views_cached_once_found:
  "(get_global s = (Inr g, s') \<longrightarrow>
      cached_global s' = Some g \<and>
      (\<forall>ns. get_global (s'\<lparr>snapshot_nodes := ns\<rparr>) = (Inr g, s'\<lparr>snapshot_nodes := ns\<rparr>))) \<and>
   (get_modules s = (ms, s') \<longrightarrow>
      cached_modules s' = Some ms \<and>
      (\<forall>ns. get_modules (s'\<lparr>snapshot_nodes := ns\<rparr>) = (ms, s'\<lparr>snapshot_nodes := ns\<rparr>))) \<and>
   modules_filters n s \<le> 1 \<and>
   (global_named (snapshot_nodes s) \<noteq> [] \<longrightarrow> global_searches n s \<le> 1) \<and>
   (global_named ns = [] \<longrightarrow>
      get_global (new_SnapshotImpl ns es h) = (Inl GlobalNotFound, new_SnapshotImpl ns es h) \<and>
      global_searches n (new_SnapshotImpl ns es h) = n) \<and>
   (global_named ns \<noteq> [] \<longrightarrow>
      get_global (new_SnapshotImpl ns es h) =
        (Inr (hd (global_named ns)), (new_SnapshotImpl ns es h)\<lparr>cached_global := Some (hd (global_named ns))\<rparr>)) \<and>
   fst (get_modules (new_SnapshotImpl ns es h)) =
     filter (\<lambda>node. node_name (ns ! node) = Some ''Module'' \<and> node_type (ns ! node) = Some ''object'')
       [0..<length ns]"
proof -
  have a: "cached_global s' = Some g \<and>
      (\<forall>ns. get_global (s'\<lparr>snapshot_nodes := ns\<rparr>) = (Inr g, s'\<lparr>snapshot_nodes := ns\<rparr>))"
    if "get_global s = (Inr g, s')"
    using that by (auto simp: get_global_def split: option.splits)
  have b: "cached_modules s' = Some ms \<and>
      (\<forall>ns. get_modules (s'\<lparr>snapshot_nodes := ns\<rparr>) = (ms, s'\<lparr>snapshot_nodes := ns\<rparr>))"
    if "get_modules s = (ms, s')"
    using that by (auto simp: get_modules_def Let_def split: option.splits)
  have m: "modules_filters n s \<le> 1"
  proof (cases n)
    case 0
    then show ?thesis by simp
  next
    case (Suc k)
    show ?thesis
    proof (cases "cached_modules s")
      case None
      then obtain ms' where "cached_modules (snd (get_modules s)) = Some ms'"
        by (simp add: get_modules_def Let_def)
      then have "modules_filters k (snd (get_modules s)) = 0"
        by (rule modules_filters_cached)
      with Suc None show ?thesis by simp
    next
      case (Some ms')
      then have "modules_filters n s = 0"
        by (rule modules_filters_cached)
      then show ?thesis by simp
    qed
  qed
  have g: "global_searches n s \<le> 1" if "global_named (snapshot_nodes s) \<noteq> []"
  proof (cases n)
    case 0
    then show ?thesis by simp
  next
    case (Suc k)
    show ?thesis
    proof (cases "cached_global s")
      case None
      with that obtain g' where "cached_global (snd (get_global s)) = Some g'"
        by (simp add: get_global_def find_filter global_named_def)
      then have "global_searches k (snd (get_global s)) = 0"
        by (rule global_searches_cached)
      with Suc None show ?thesis by simp
    next
      case (Some g')
      then have "global_searches n s = 0"
        by (rule global_searches_cached)
      then show ?thesis by simp
    qed
  qed
  have c: "get_global (new_SnapshotImpl ns es h) = (Inl GlobalNotFound, new_SnapshotImpl ns es h) \<and>
      global_searches n (new_SnapshotImpl ns es h) = n"
    if "global_named ns = []"
  proof -
    have "global_searches n (new_SnapshotImpl ns es h) = n"
      using that by (intro global_searches_not_found) (simp_all add: new_SnapshotImpl_def)
    moreover have "get_global (new_SnapshotImpl ns es h)
        = (Inl GlobalNotFound, new_SnapshotImpl ns es h)"
      using that by (simp add: get_global_def new_SnapshotImpl_def find_filter global_named_def)
    ultimately show ?thesis by simp
  qed
  have d: "get_global (new_SnapshotImpl ns es h) =
        (Inr (hd (global_named ns)), (new_SnapshotImpl ns es h)\<lparr>cached_global := Some (hd (global_named ns))\<rparr>)"
    if "global_named ns \<noteq> []"
    using that by (simp add: get_global_def new_SnapshotImpl_def find_filter global_named_def)
  have e: "fst (get_modules (new_SnapshotImpl ns es h)) =
     filter (\<lambda>node. node_name (ns ! node) = Some ''Module'' \<and> node_type (ns ! node) = Some ''object'')
       [0..<length ns]"
    by (simp add: get_modules_def new_SnapshotImpl_def Let_def)
  from a b m g c d e show ?thesis by blast
qed

theorem lazy_views_cached_once_found_witness:
  "get_global (returned doc_example) = (Inr 0, (returned doc_example)\<lparr>cached_global := Some 0\<rparr>) \<and>
   get_global ((returned doc_example)\<lparr>cached_global := Some 0\<rparr>) =
     (Inr 0, (returned doc_example)\<lparr>cached_global := Some 0\<rparr>) \<and>
   global_searches 3 (returned doc_example) \<le> 1 \<and>
   parseSnapshot doc_no_global = Some ([], Inr (returned doc_no_global)) \<and>
   get_global (returned doc_no_global) = (Inl GlobalNotFound, returned doc_no_global) \<and>
   global_searches 3 (returned doc_no_global) = 3 \<and>
   get_modules (returned doc_no_global) = ([], (returned doc_no_global)\<lparr>cached_modules := Some []\<rparr>) \<and>
   get_modules ((returned doc_no_global)\<lparr>cached_modules := Some []\<rparr>) =
     ([], (returned doc_no_global)\<lparr>cached_modules := Some []\<rparr>)"
proof -
  let ?s = "returned doc_example" and ?t = "returned doc_no_global"
  have s: "?s = new_SnapshotImpl (snapshot_nodes ?s) (snapshot_edges ?s) (snapshot_hasDetachedness ?s)"
    by code_simp
  have sn: "global_named (snapshot_nodes ?s) \<noteq> []" "hd (global_named (snapshot_nodes ?s)) = 0"
    by code_simp+
  have p: "parseSnapshot doc_no_global = Some ([], Inr ?t)"
    by code_simp
  have t: "?t = new_SnapshotImpl (snapshot_nodes ?t) (snapshot_edges ?t) (snapshot_hasDetachedness ?t)"
    by code_simp
  have n: "global_named (snapshot_nodes ?t) = []"
    by code_simp
  have m1: "get_modules ?t = ([], ?t\<lparr>cached_modules := Some []\<rparr>)"
    by code_simp
  have g1: "get_global ?s = (Inr 0, ?s\<lparr>cached_global := Some 0\<rparr>)"
    using lazy_views_cached_once_found
      [of _ _ _ _ _ "snapshot_nodes ?s" "snapshot_edges ?s" "snapshot_hasDetachedness ?s"]
      sn s by simp
  have g2: "get_global (?s\<lparr>cached_global := Some 0\<rparr>) = (Inr 0, ?s\<lparr>cached_global := Some 0\<rparr>)"
    using lazy_views_cached_once_found [of ?s 0 "?s\<lparr>cached_global := Some 0\<rparr>"] g1
    by (metis (no_types, lifting) SnapshotImpl.surjective SnapshotImpl.update_convs(1))
  from lazy_views_cached_once_found [of ?s 0 ?s "[]" 3 "[]" "[]" False]
  have "global_named (snapshot_nodes ?s) \<noteq> [] \<longrightarrow> global_searches 3 ?s \<le> 1"
    by (elim conjE)
  with sn(1) have g3: "global_searches 3 ?s \<le> 1"
    by (elim impE)
  have g4: "get_global ?t = (Inl GlobalNotFound, ?t) \<and> global_searches 3 ?t = 3"
    using lazy_views_cached_once_found
      [of _ _ _ _ 3 "snapshot_nodes ?t" "snapshot_edges ?t" "snapshot_hasDetachedness ?t"]
      n t by simp
  have m2: "get_modules (?t\<lparr>cached_modules := Some []\<rparr>) = ([], ?t\<lparr>cached_modules := Some []\<rparr>)"
    using lazy_views_cached_once_found [of ?t _ "?t\<lparr>cached_modules := Some []\<rparr>" "[]"] m1
    by (metis (no_types, lifting) SnapshotImpl.surjective SnapshotImpl.update_convs(1))
  from g1 g2 g3 p g4 m1 m2 show ?thesis by simp
qed

section \<open>Negative string indices (claim C9)\<close>

lemma index_negative: "q < 0 \<Longrightarrow> index xs (Some q) = None"
  by (simp add: index_def)

text \<open>
  Claim C9. For an edge whose type is neither \<^verbatim>\<open>element\<close> nor \<^verbatim>\<open>hidden\<close> and whose second
  field is negative, the bounds check of \<^verbatim>\<open>name_or_index\<close> does not fire: the function
  returns the \<^verbatim>\<open>undefined\<close> that indexing the string table below zero gives, and the loop
  body goes on to build the edge with that name (given a destination that resolves).
\<close>

theorem negative_string_index_not_rejected:
  assumes "t \<noteq> Some ''element''" and "t \<noteq> Some ''hidden''" and "q < 0"
  shows "name_or_index strs t (Some q) = Inr JUndefined \<and>
         (index (edge_types data) (elem_at (edges data) (edgeIndex st)) = t \<and>
          elem_at (edges data) (edgeIndex st + 1) = Some q \<and>
          ref_at (heap st) (div_num (elem_at (edges data) (edgeIndex st + 2)) (nodeFieldCount parseInfo))
            = Some to_node \<longrightarrow>
          wire_edge data parseInfo from_node st =
            Inr \<lparr>edgeIndex = edgeIndex st + 3,
                 result = result st @ [\<lparr>edge_type = t, edge_name = JUndefined,
                                         edge_from = from_node, edge_to = to_node\<rparr>],
                 heap = push_in (push_out (heap st) from_node (length (result st))) to_node
                          (length (result st))\<rparr>)"
proof -
  have "\<not> ge_num (Some q) (of_nat (length xs))" for xs :: "string list"
    using assms(3) by (simp add: ge_num_def)
  then have name: "name_or_index xs t (Some q) = Inr JUndefined" for xs
    using assms by (simp add: name_or_index_def index_negative)
  then show ?thesis
    by (auto simp: wire_edge_def Let_def)
qed

theorem negative_string_index_not_rejected_witness:
  "name_or_index [''global / '', ''hi'', ''x''] (Some ''property'') (Some (- 1)) = Inr JUndefined \<and>
   wire_edge (the (asRaw doc_negative_name)) (parseInfoFromSnapshot (the (asRaw doc_negative_name))) 0
     \<lparr>edgeIndex = 0, result = [],
      heap = parseNodes (the (asRaw doc_negative_name)) (parseInfoFromSnapshot (the (asRaw doc_negative_name)))\<rparr>
     = Inr \<lparr>edgeIndex = 3,
            result = [\<lparr>edge_type = Some ''property'', edge_name = JUndefined, edge_from = 0, edge_to = 1\<rparr>],
            heap = push_in (push_out
                     (parseNodes (the (asRaw doc_negative_name)) (parseInfoFromSnapshot (the (asRaw doc_negative_name))))
                     0 0) 1 0\<rparr> \<and>
   parseSnapshot doc_negative_name = Some ([], Inr (returned doc_negative_name)) \<and>
   map edge_type (snapshot_edges (returned doc_negative_name)) = [Some ''property''] \<and>
   map edge_name (snapshot_edges (returned doc_negative_name)) = [JUndefined]"
proof -
  let ?data = "the (asRaw doc_negative_name)"
  let ?pi = "parseInfoFromSnapshot ?data"
  let ?st = "\<lparr>edgeIndex = 0, result = [], heap = parseNodes ?data ?pi\<rparr>"
  have t: "Some ''property'' \<noteq> Some ''element''" "Some ''property'' \<noteq> Some ''hidden''" "(- 1 :: rat) < 0"
    by simp_all
  note r = negative_string_index_not_rejected [OF t, of "[''global / '', ''hi'', ''x'']" ?data ?st ?pi 1 0]
  from r have a: "name_or_index [''global / '', ''hi'', ''x''] (Some ''property'') (Some (- 1)) = Inr JUndefined"
    by (elim conjE)
  have h: "index (edge_types ?data) (elem_at (edges ?data) (edgeIndex ?st)) = Some ''property''"
    "elem_at (edges ?data) (edgeIndex ?st + 1) = Some (- 1)"
    "ref_at (heap ?st) (div_num (elem_at (edges ?data) (edgeIndex ?st + 2)) (nodeFieldCount ?pi)) = Some 1"
    by code_simp+
  from r have "index (edge_types ?data) (elem_at (edges ?data) (edgeIndex ?st)) = Some ''property'' \<and>
          elem_at (edges ?data) (edgeIndex ?st + 1) = Some (- 1) \<and>
          ref_at (heap ?st) (div_num (elem_at (edges ?data) (edgeIndex ?st + 2)) (nodeFieldCount ?pi))
            = Some 1 \<longrightarrow>
          wire_edge ?data ?pi 0 ?st =
            Inr \<lparr>edgeIndex = edgeIndex ?st + 3,
                 result = result ?st @ [\<lparr>edge_type = Some ''property'', edge_name = JUndefined,
                                         edge_from = 0, edge_to = 1\<rparr>],
                 heap = push_in (push_out (heap ?st) 0 (length (result ?st))) 1
                          (length (result ?st))\<rparr>"
    by (elim conjE)
  with h have b: "wire_edge ?data ?pi 0 ?st =
            Inr \<lparr>edgeIndex = edgeIndex ?st + 3,
                 result = result ?st @ [\<lparr>edge_type = Some ''property'', edge_name = JUndefined,
                                         edge_from = 0, edge_to = 1\<rparr>],
                 heap = push_in (push_out (heap ?st) 0 (length (result ?st))) 1
                          (length (result ?st))\<rparr>"
    by (elim impE) (intro conjI)
  have c: "parseSnapshot doc_negative_name = Some ([], Inr (returned doc_negative_name))"
    by code_simp
  have d: "map edge_type (snapshot_edges (returned doc_negative_name)) = [Some ''property'']"
    "map edge_name (snapshot_edges (returned doc_negative_name)) = [JUndefined]"
    by code_simp+
  from a b c d show ?thesis by simp
qed

section \<open>Node decoding (claim C2)\<close>

text \<open>
  Claim C2 as stated fails: the first field of the only record of \<open>doc_bad_type\<close> is 99,
  no index into the 14 type names, and \<^verbatim>\<open>parseSnapshot\<close> returns a snapshot whose node has
  the type \<^verbatim>\<open>undefined\<close>. The \<^verbatim>\<open>!\<close> after \<^verbatim>\<open>types[...]\<close> is a compile-time assertion only.
\<close>

theorem invalid_node_type_counterexample:
  "nodes (the (asRaw doc_bad_type)) ! 0 = 99 \<and>
   length (node_types (the (asRaw doc_bad_type))) = 14 \<and>
   parseSnapshot doc_bad_type = Some ([], Inr (returned doc_bad_type)) \<and>
   map node_type (snapshot_nodes (returned doc_bad_type)) = [None] \<and>
   map node_name (snapshot_nodes (returned doc_bad_type)) = [Some ''hi'']"
  by code_simp

lemma record_in_range:
  assumes "k < m" and "j < (f::nat)"
  shows "k * f + j < m * f"
proof -
  have "k * f + j < k * f + f" using assms(2) by simp
  also have "\<dots> = Suc k * f" by simp
  also have "\<dots> \<le> m * f" using assms(1) by (intro mult_le_mono1) simp
  finally show ?thesis .
qed

text \<open>
  Claim C2, amended. For a document that passed the check, \<^verbatim>\<open>parseNodes\<close> returns exactly
  \<^verbatim>\<open>node_count\<close> nodes, and node \<open>k\<close> holds the fields of record \<open>k\<close> of the flat sequence:
  the type looked up in the document's own type list (\<^verbatim>\<open>undefined\<close> when the first field is
  not an index into it; no error is raised), the name looked up in the string table, the
  four numbers, and \<^verbatim>\<open>detached\<close>. The nodes of the returned snapshot are these nodes in this
  order, with their edge lists filled in.
\<close>

theorem parseNodes_records:
  assumes "check d = Some (w, Inr ())" and "asRaw d = Some data"
  shows "of_nat (length (parseNodes data (parseInfoFromSnapshot data))) = node_count data \<and>
     (\<forall>k < length (parseNodes data (parseInfoFromSnapshot data)).
        parseNodes data (parseInfoFromSnapshot data) ! k =
          \<lparr>node_type = index (node_types data) (Some (nodes data ! (k * length (node_fields data)))),
           node_name = index (strings data) (Some (nodes data ! (k * length (node_fields data) + 1))),
           node_id = Some (nodes data ! (k * length (node_fields data) + 2)),
           self_size = Some (nodes data ! (k * length (node_fields data) + 3)),
           edge_count = Some (nodes data ! (k * length (node_fields data) + 4)),
           trace_node_id = Some (nodes data ! (k * length (node_fields data) + 5)),
           detached = (if 6 < length (node_fields data)
                       then Some (nodes data ! (k * length (node_fields data) + 6) = 1) else None),
           out_edges = [], in_edges = []\<rparr>) \<and>
     (\<forall>s. parseSnapshot d = Some (w, Inr s) \<longrightarrow>
        length (snapshot_nodes s) = length (parseNodes data (parseInfoFromSnapshot data)) \<and>
        (\<forall>k < length (snapshot_nodes s).
           snapshot_nodes s ! k = (parseNodes data (parseInfoFromSnapshot data) ! k)
             \<lparr>out_edges := out_edges (snapshot_nodes s ! k),
              in_edges := in_edges (snapshot_nodes s ! k)\<rparr>))"
proof -
  let ?pi = "parseInfoFromSnapshot data"
  let ?f = "length (node_fields data)"
  let ?m = "nat \<lceil>node_count data\<rceil>"
  note nc = checked_node_count [OF assms]
  from assms(1) obtain meta where c: "check_structure d = Some (Inr meta)"
    by (rule check_Inr)
  have f6: "6 \<le> ?f"
    using check_structure_typed(2) [OF c assms(2)] .
  have len: "length (parseNodes data ?pi) = ?m"
    by (simp add: parseNodes_eq)
  have count: "of_nat (length (parseNodes data ?pi)) = node_count data"
    using nc(1) len by simp
  have rec: "parseNodes data ?pi ! k =
          \<lparr>node_type = index (node_types data) (Some (nodes data ! (k * ?f))),
           node_name = index (strings data) (Some (nodes data ! (k * ?f + 1))),
           node_id = Some (nodes data ! (k * ?f + 2)),
           self_size = Some (nodes data ! (k * ?f + 3)),
           edge_count = Some (nodes data ! (k * ?f + 4)),
           trace_node_id = Some (nodes data ! (k * ?f + 5)),
           detached = (if 6 < ?f then Some (nodes data ! (k * ?f + 6) = 1) else None),
           out_edges = [], in_edges = []\<rparr>"
    if "k < length (parseNodes data ?pi)" for k
  proof -
    from that have k: "k < ?m" by (simp add: len)
    have in_range: "k * ?f + j < length (nodes data)" if "j < ?f" for j
      using record_in_range [OF k that] nc(2) by simp
    have r: "k * ?f + 0 < length (nodes data)" "k * ?f + 1 < length (nodes data)"
      "k * ?f + 2 < length (nodes data)" "k * ?f + 3 < length (nodes data)"
      "k * ?f + 4 < length (nodes data)" "k * ?f + 5 < length (nodes data)"
      using f6 in_range [of 0] in_range [of 1] in_range [of 2] in_range [of 3]
        in_range [of 4] in_range [of 5] by simp_all
    have r6: "6 < ?f \<Longrightarrow> k * ?f + 6 < length (nodes data)"
      by (rule in_range)
    show ?thesis
      using k r r6
      by (simp add: parseNodes_eq decode_node_def Let_def parseInfoFromSnapshot_def
          access_def elem_at_def)
  qed
  have snap: "length (snapshot_nodes s) = length (parseNodes data ?pi) \<and>
        (\<forall>k < length (snapshot_nodes s).
           snapshot_nodes s ! k = (parseNodes data ?pi ! k)
             \<lparr>out_edges := out_edges (snapshot_nodes s ! k),
              in_edges := in_edges (snapshot_nodes s ! k)\<rparr>)"
    if "parseSnapshot d = Some (w, Inr s)" for s
    using parseSnapshot_nodes [OF that assms(2)] len
    by (simp add: adjacent_def)
  from count rec snap show ?thesis by blast
qed

theorem parseNodes_records_witness:
  "length (parseNodes (the (asRaw doc_bad_type)) (parseInfoFromSnapshot (the (asRaw doc_bad_type)))) = 1 \<and>
   node_count (the (asRaw doc_bad_type)) = 1 \<and>
   parseNodes (the (asRaw doc_bad_type)) (parseInfoFromSnapshot (the (asRaw doc_bad_type))) ! 0 =
     \<lparr>node_type = None, node_name = Some ''hi'', node_id = Some 1, self_size = Some 10,
      edge_count = Some 0, trace_node_id = Some 0, detached = None, out_edges = [], in_edges = []\<rparr> \<and>
   length (snapshot_nodes (returned doc_bad_type)) = 1"
proof -
  let ?data = "the (asRaw doc_bad_type)"
  have h1: "check doc_bad_type = Some ([], Inr ())" by code_simp
  have h2: "asRaw doc_bad_type = Some ?data" by code_simp
  have h3: "parseSnapshot doc_bad_type = Some ([], Inr (returned doc_bad_type))"
    by code_simp
  have v: "length (parseNodes ?data (parseInfoFromSnapshot ?data)) = 1"
    "length (node_fields ?data) = 6" "node_count ?data = 1"
    "index (node_types ?data) (Some (nodes ?data ! 0)) = None"
    "index (strings ?data) (Some (nodes ?data ! 1)) = Some ''hi''"
    "nodes ?data ! Suc (Suc 0) = 1" "nodes ?data ! 3 = 10" "nodes ?data ! 4 = 0" "nodes ?data ! 5 = 0"
    by code_simp+
  from parseNodes_records [OF h1 h2] h3 v show ?thesis
    by simp
qed

section \<open>Facts about the decoded edges\<close>

lemma parseSnapshot_edges:
  assumes "parseSnapshot d = Some (w, Inr s)" and "asRaw d = Some data"
  shows "\<And>e. e < length (snapshot_edges s) \<Longrightarrow>
           edge_from (snapshot_edges s ! e) < length (snapshot_nodes s) \<and>
           edge_to (snapshot_edges s ! e) < length (snapshot_nodes s) \<and>
           decoded_edge data (parseInfoFromSnapshot data)
             (parseNodes data (parseInfoFromSnapshot data)) e (snapshot_edges s ! e)"
    and "map edge_from (snapshot_edges s) =
           concat (map (\<lambda>n. replicate (iterations (edge_count (snapshot_nodes s ! n))) n)
                     [0..<length (snapshot_nodes s)])"
    and "3 * length (snapshot_edges s) \<le> length (edges data)"
proof -
  let ?pi = "parseInfoFromSnapshot data"
  from assms obtain es ns' where
    w: "parseAndWireEdges data (parseNodes data ?pi) ?pi = Inr (es, ns')"
    and s: "s = new_SnapshotImpl ns' es (hasDetachedness data)"
    by (auto elim!: parseSnapshot_Inr)
  note r = parseAndWireEdges_Inr [OF fresh_parseNodes w]
  have es: "snapshot_edges s = es" and ns: "snapshot_nodes s = ns'"
    by (simp_all add: s new_SnapshotImpl_def)
  show "\<And>e. e < length (snapshot_edges s) \<Longrightarrow>
           edge_from (snapshot_edges s ! e) < length (snapshot_nodes s) \<and>
           edge_to (snapshot_edges s ! e) < length (snapshot_nodes s) \<and>
           decoded_edge data ?pi (parseNodes data ?pi) e (snapshot_edges s ! e)"
    using r(1,3) by (simp add: es ns)
  have eq: "map (\<lambda>n. replicate (iterations (edge_count (parseNodes data ?pi ! n))) n)
               [0..<length (parseNodes data ?pi)]
      = map (\<lambda>n. replicate (iterations (edge_count (ns' ! n))) n)
               [0..<length (parseNodes data ?pi)]"
    by (intro map_cong) (simp_all add: r(2))
  show "map edge_from (snapshot_edges s) =
           concat (map (\<lambda>n. replicate (iterations (edge_count (snapshot_nodes s ! n))) n)
                     [0..<length (snapshot_nodes s)])"
    unfolding es ns r(1) by (simp only: r(4) eq)
  show "3 * length (snapshot_edges s) \<le> length (edges data)"
    using r(5) by (simp add: es)
qed

lemma count_list_filter:
  "count_list (filter P xs) x = (if P x then count_list xs x else 0)"
  by (induction xs) auto

lemma count_list_upt: "count_list [0..<L] e = (if e < L then 1 else 0)"
  by (induction L) auto

lemma sum_length_filter_upt:
  assumes "\<forall>e < L. f e < (N::nat)"
  shows "(\<Sum>n\<leftarrow>[0..<N]. length (filter (\<lambda>e. f e = n) [0..<L])) = L"
  using assms
proof (induction L)
  case 0
  then show ?case by simp
next
  case (Suc L)
  have "(\<Sum>n\<leftarrow>[0..<N]. length (filter (\<lambda>e. f e = n) [0..<Suc L]))
      = (\<Sum>n\<leftarrow>[0..<N]. length (filter (\<lambda>e. f e = n) [0..<L]) + (if f L = n then 1 else 0))"
    by (intro arg_cong [where f = sum_list] map_cong) simp_all
  also have "\<dots> = (\<Sum>n\<leftarrow>[0..<N]. length (filter (\<lambda>e. f e = n) [0..<L]))
                  + (\<Sum>n\<leftarrow>[0..<N]. if f L = n then 1 else 0)"
    by (simp add: sum_list_addf)
  also have "(\<Sum>n\<leftarrow>[0..<N]. if f L = n then 1 else 0) = (1::nat)"
    using Suc.prems by (simp add: interv_sum_list_conv_sum_set_nat)
  also have "(\<Sum>n\<leftarrow>[0..<N]. length (filter (\<lambda>e. f e = n) [0..<L])) = L"
    using Suc by simp
  finally show ?case by simp
qed

lemma iterations_is_count: "is_count c \<Longrightarrow> rat_of_nat (iterations c) = the c"
proof (cases c)
  case None
  then show "is_count c \<Longrightarrow> ?thesis" by (simp add: is_count_def)
next
  case (Some q)
  assume "is_count c"
  with Some have q: "0 \<le> q" "rat_of_int \<lfloor>q\<rfloor> = q"
    by (simp_all add: is_count_def is_int_def)
  then have "\<lceil>q\<rceil> = \<lfloor>q\<rfloor>"
    by (metis ceiling_of_int)
  moreover have "0 \<le> \<lfloor>q\<rfloor>" using q(1) by simp
  ultimately show ?thesis
    using Some q(2) by (simp add: iterations_def)
qed

lemma thenE_Inl_iff: "thenE m f = Inl err \<longleftrightarrow> m = Inl err \<or> (\<exists>x. m = Inr x \<and> f x = Inl err)"
  by (cases m) auto

lemma name_or_index_errors: "name_or_index strs t i = Inl err \<Longrightarrow> err = InvalidStringIndex"
  by (auto simp: name_or_index_def split: if_splits)

lemma wire_edge_errors:
  "wire_edge data parseInfo n st = Inl err \<Longrightarrow> err = TypeError \<or> err = InvalidStringIndex"
  by (auto simp: wire_edge_def Let_def thenE_Inl_iff split: option.splits
      dest: name_or_index_errors)

lemma wire_node_errors:
  "wire_node data parseInfo n k st = Inl err \<Longrightarrow> err = TypeError \<or> err = InvalidStringIndex"
proof (induction data parseInfo n k st rule: wire_node.induct)
  case (1 data parseInfo from_node edgeCount st)
  show ?case
  proof (cases "lt_num edgeCount (edge_count (heap st ! from_node))")
    case False
    with "1.prems" show ?thesis
      by (subst (asm) wire_node.simps) simp
  next
    case True
    show ?thesis
    proof (cases "wire_edge data parseInfo from_node st")
      case (Inl e)
      with True "1.prems" have "e = err"
        by (subst (asm) wire_node.simps) simp
      with Inl show ?thesis by (auto dest: wire_edge_errors)
    next
      case (Inr st')
      with True "1.prems" have "wire_node data parseInfo from_node (Suc edgeCount) st' = Inl err"
        by (subst (asm) wire_node.simps) simp
      with "1.IH" [OF True Inr] show ?thesis by simp
    qed
  qed
qed

lemma wire_nodes_errors:
  "wire_nodes data parseInfo froms st = Inl err \<Longrightarrow> err = TypeError \<or> err = InvalidStringIndex"
proof (induction froms arbitrary: st)
  case Nil
  then show ?case by simp
next
  case (Cons n froms)
  then show ?case
    by (auto split: sum.splits dest: wire_node_errors)
qed

lemma buildSnapshot_errors:
  "buildSnapshot data = Inl err \<Longrightarrow> err = TypeError \<or> err = InvalidStringIndex"
  by (auto simp: buildSnapshot_def Let_def parseAndWireEdges_def split: sum.splits prod.splits
      dest: wire_nodes_errors)

lemma asRaw_object: "asRaw d = Some data \<Longrightarrow> typeof d = ''object''"
  by (cases d) (auto simp: asRaw_def split: Option.bind_splits)

lemma parseSnapshot_checked:
  assumes "parseSnapshot d = Some (w, r)" and "asRaw d = Some data"
    and "check d = Some (w', Inr ())"
  shows "r = buildSnapshot data"
  using assms asRaw_object [OF assms(2)]
  by (auto simp: parseSnapshot_def split: if_splits prod.splits sum.splits)

section \<open>The division of an edge's third field\<close>

lemma underflow_less_one: "underflow < 1"
  by (simp add: underflow_def)

lemma underflow_power: "underflow = 1 / 2 ^ 1075"
proof -
  have "(2::rat) ^ 1075 = 1 / underflow"
    by (simp add: underflow_def)
  then show ?thesis
    by (simp only: underflow_def div_by_1 divide_divide_eq_right mult_1)
qed

text \<open>
  The least positive double, \<^verbatim>\<open>5e-324\<close>, is twice \<open>underflow\<close>: divided by six it is
  rounded to zero, while four times that double is not.
\<close>

lemma underflow_pos: "0 < underflow"
  by (simp add: underflow_def)

lemma div_num_underflow: "div_num (Some (2 * underflow)) 6 = Some 0"
  using underflow_pos by (simp add: div_num_def)

lemma div_num_no_underflow: "div_num (Some (8 * underflow)) 6 = Some (4 * underflow / 3)"
  using underflow_pos by (simp add: div_num_def)

lemma div_num_multiple:
  assumes "f \<noteq> 0"
  shows "div_num (Some (rat_of_nat k * rat_of_nat f)) f = Some (rat_of_nat k)"
proof (cases "k = 0")
  case True
  then show ?thesis
    using assms by (simp add: div_num_def)
next
  case False
  then have "1 \<le> rat_of_nat k" by simp
  then have "\<not> \<bar>rat_of_nat k\<bar> \<le> underflow"
    using underflow_less_one by linarith
  then show ?thesis
    using assms by (simp add: div_num_def)
qed

lemma ref_at_of_nat: "ref_at xs (Some (rat_of_nat k)) = Some k' \<Longrightarrow> k' = k"
  by (simp add: ref_at_def is_int_def split: if_splits)

section \<open>Resolution of the fields of an edge (claim C4)\<close>

text \<open>
  Claim C4 at an input where the code departs from it: in \<open>doc_negative_index\<close> the edge is
  of type \<^verbatim>\<open>internal\<close> and its second field \<open>-2\<close> is out of the bounds of the string table,
  yet no error is raised and the edge is decoded with the name \<^verbatim>\<open>undefined\<close>. The guard of
  \<^verbatim>\<open>name_or_index\<close>, \<^verbatim>\<open>i >= strings.length\<close>, tests the upper bound only.
\<close>

theorem string_index_below_zero_decodes:
  "edges (the (asRaw doc_negative_index)) = [3, - 2, 6] \<and>
   index (edge_types (the (asRaw doc_negative_index))) (Some 3) = Some ''internal'' \<and>
   index (strings (the (asRaw doc_negative_index))) (Some (- 2)) = None \<and>
   name_or_index (strings (the (asRaw doc_negative_index))) (Some ''internal'') (Some (- 2))
     = Inr JUndefined \<and>
   name_or_index (strings (the (asRaw doc_negative_index))) (Some ''internal'') (Some 3)
     = Inl InvalidStringIndex \<and>
   parseSnapshot doc_negative_index = Some ([], Inr (returned doc_negative_index)) \<and>
   snapshot_edges (returned doc_negative_index) =
     [\<lparr>edge_type = Some ''internal'', edge_name = JUndefined, edge_from = 0, edge_to = 1\<rparr>]"
  by code_simp

lemma nodeFieldCount_parseInfo:
  "nodeFieldCount (parseInfoFromSnapshot data) = length (node_fields data)"
  by (simp add: parseInfoFromSnapshot_def)

text \<open>
  What holds of every edge \<open>e\<close> of a decoded snapshot, read from the record at \<open>3 * e\<close>:
  its type is the entry of the document's edge-type list at the first field; if the type
  is \<^verbatim>\<open>element\<close> or \<^verbatim>\<open>hidden\<close> the name is the second field itself, as a number; for every
  other type the second field is below the length of the string table and the name is the
  string there (\<^verbatim>\<open>undefined\<close> when the field is negative or fractional); the destination is
  the node of the snapshot at the position that the division of the third field by the
  node field count gives, which is \<open>k\<close> when the third field is \<open>k\<close> times the node field
  count. A second field at or above the length of the string table, for a type other than
  \<^verbatim>\<open>element\<close> and \<^verbatim>\<open>hidden\<close>, makes \<^verbatim>\<open>name_or_index\<close> throw.
\<close>

lemma edge_fields_resolution:
  assumes "parseSnapshot d = Some (w, Inr s)" and "asRaw d = Some data"
    and "e < length (snapshot_edges s)"
  shows "edge_type (snapshot_edges s ! e) = index (edge_types data) (Some (edges data ! (3 * e))) \<and>
     (edge_type (snapshot_edges s ! e) = Some ''element'' \<or>
      edge_type (snapshot_edges s ! e) = Some ''hidden'' \<longrightarrow>
        edge_name (snapshot_edges s ! e) = JNum (edges data ! (3 * e + 1))) \<and>
     (edge_type (snapshot_edges s ! e) \<noteq> Some ''element'' \<and>
      edge_type (snapshot_edges s ! e) \<noteq> Some ''hidden'' \<longrightarrow>
        edges data ! (3 * e + 1) < of_nat (length (strings data)) \<and>
        edge_name (snapshot_edges s ! e) =
          (case index (strings data) (Some (edges data ! (3 * e + 1))) of
             Some str \<Rightarrow> JStr str | None \<Rightarrow> JUndefined)) \<and>
     ref_at (snapshot_nodes s)
       (div_num (Some (edges data ! (3 * e + 2))) (length (node_fields data)))
       = Some (edge_to (snapshot_edges s ! e)) \<and>
     (\<forall>k. edges data ! (3 * e + 2) = rat_of_nat k * rat_of_nat (length (node_fields data)) \<longrightarrow>
        edge_to (snapshot_edges s ! e) = k) \<and>
     (\<forall>t i. t \<noteq> Some ''element'' \<and> t \<noteq> Some ''hidden'' \<and> of_nat (length (strings data)) \<le> i \<longrightarrow>
        name_or_index (strings data) t (Some i) = Inl InvalidStringIndex)"
proof -
  let ?ed = "snapshot_edges s ! e"
  let ?pn = "parseNodes data (parseInfoFromSnapshot data)"
  let ?f = "length (node_fields data)"
  from parseSnapshot_edges(1) [OF assms]
  have dec: "decoded_edge data (parseInfoFromSnapshot data) ?pn e ?ed"
    by simp
  from dec have r2: "3 * e + 2 < length (edges data)"
    by (simp add: decoded_edge_def)
  then have r: "elem_at (edges data) (3 * e) = Some (edges data ! (3 * e))"
    "elem_at (edges data) (3 * e + 1) = Some (edges data ! (3 * e + 1))"
    "elem_at (edges data) (3 * e + 2) = Some (edges data ! (3 * e + 2))"
    by (simp_all add: elem_at_def)
  from dec have ty: "edge_type ?ed = index (edge_types data) (Some (edges data ! (3 * e)))"
    and name: "name_or_index (strings data) (edge_type ?ed) (Some (edges data ! (3 * e + 1)))
                 = Inr (edge_name ?ed)"
    and dest0: "ref_at ?pn (div_num (Some (edges data ! (3 * e + 2))) ?f) = Some (edge_to ?ed)"
    unfolding decoded_edge_def r nodeFieldCount_parseInfo by blast+
  have "length (snapshot_nodes s) = length ?pn"
    using parseSnapshot_nodes(1) [OF assms(1,2)] by (simp add: parseNodes_eq)
  from ref_at_length_cong [OF this] dest0
  have dest: "ref_at (snapshot_nodes s) (div_num (Some (edges data ! (3 * e + 2))) ?f)
                = Some (edge_to ?ed)"
    by simp
  have f0: "?f \<noteq> 0"
    using dest by (auto simp: div_num_def ref_at_def)
  have mult: "edge_to ?ed = k" if "edges data ! (3 * e + 2) = rat_of_nat k * rat_of_nat ?f" for k
    using dest unfolding that div_num_multiple [OF f0] by (rule ref_at_of_nat)
  have lit: "edge_name ?ed = JNum (edges data ! (3 * e + 1))"
    if "edge_type ?ed = Some ''element'' \<or> edge_type ?ed = Some ''hidden''"
    using that name by (auto simp: name_or_index_def)
  have str: "edges data ! (3 * e + 1) < of_nat (length (strings data)) \<and>
        edge_name ?ed = (case index (strings data) (Some (edges data ! (3 * e + 1))) of
             Some str \<Rightarrow> JStr str | None \<Rightarrow> JUndefined)"
    if "edge_type ?ed \<noteq> Some ''element'' \<and> edge_type ?ed \<noteq> Some ''hidden''"
    using that name by (auto simp: name_or_index_def ge_num_def split: if_splits)
  have fatal: "name_or_index (strings data) t (Some i) = Inl InvalidStringIndex"
    if "t \<noteq> Some ''element'' \<and> t \<noteq> Some ''hidden'' \<and> of_nat (length (strings data)) \<le> i" for t i
    using that by (simp add: name_or_index_def ge_num_def)
  from ty lit str dest mult fatal show ?thesis
    by blast
qed

lemma edge_fields_resolution_example:
  "snapshot_edges (returned doc_example) ! 0 =
     \<lparr>edge_type = Some ''property'', edge_name = JStr ''x'', edge_from = 0, edge_to = 1\<rparr> \<and>
   index (strings (the (asRaw doc_element))) (Some 5) = Some ''d'' \<and>
   edge_type (snapshot_edges (returned doc_element) ! 0) = Some ''element'' \<and>
   edge_name (snapshot_edges (returned doc_element) ! 0) = JNum 5"
proof -
  have v: "snapshot_edges (returned doc_example) ! 0 =
     \<lparr>edge_type = Some ''property'', edge_name = JStr ''x'', edge_from = 0, edge_to = 1\<rparr>"
    by code_simp
  let ?el = "the (asRaw doc_element)"
  have e1: "parseSnapshot doc_element = Some ([], Inr (returned doc_element))" by code_simp
  have e2: "asRaw doc_element = Some ?el" by code_simp
  have e3: "0 < length (snapshot_edges (returned doc_element))" by code_simp
  have e4: "index (strings ?el) (Some 5) = Some ''d''" by code_simp
  have e5: "edge_type (snapshot_edges (returned doc_element) ! 0) = Some ''element''" by code_simp
  have e6: "edges ?el ! (3 * 0 + 1) = 5" by code_simp
  from edge_fields_resolution [OF e1 e2 e3]
  have "edge_type (snapshot_edges (returned doc_element) ! 0) = Some ''element'' \<or>
        edge_type (snapshot_edges (returned doc_element) ! 0) = Some ''hidden'' \<longrightarrow>
        edge_name (snapshot_edges (returned doc_element) ! 0) = JNum (edges ?el ! (3 * 0 + 1))"
    by (elim conjE)
  with e5 have "edge_name (snapshot_edges (returned doc_element) ! 0) = JNum (edges ?el ! (3 * 0 + 1))"
    by (elim impE) (rule disjI1)
  then have lit: "edge_name (snapshot_edges (returned doc_element) ! 0) = JNum 5"
    unfolding e6 .
  from v e4 e5 lit show ?thesis
    by (intro conjI)
qed

section \<open>Edges and declared edge counts (claim C1)\<close>

text \<open>
  Claim C1 as stated fails: \<open>doc_leftover\<close> passes the check, its nodes declare no edge,
  its edge array holds a record that is left over, and \<^verbatim>\<open>parseSnapshot\<close> returns a graph
  (with no edge) instead of failing. And \<open>doc_negative_count\<close>, whose only node declares
  the count \<open>-1\<close>, is decoded with no edge: the number of edges is not the sum of the
  declared counts there.
\<close>

theorem leftover_edges_counterexample:
  "check doc_leftover = Some ([], Inr ()) \<and>
   length (edges (the (asRaw doc_leftover))) = 3 \<and>
   parseSnapshot doc_leftover = Some ([], Inr (returned doc_leftover)) \<and>
   map edge_count (snapshot_nodes (returned doc_leftover)) = [Some 0, Some 0] \<and>
   snapshot_edges (returned doc_leftover) = [] \<and>
   parseSnapshot doc_negative_count = Some ([], Inr (returned doc_negative_count)) \<and>
   map edge_count (snapshot_nodes (returned doc_negative_count)) = [Some (- 1)] \<and>
   snapshot_edges (returned doc_negative_count) = []"
proof (intro conjI)
  show "check doc_leftover = Some ([], Inr ())" by code_simp
  show "length (edges (the (asRaw doc_leftover))) = 3" by code_simp
  show "parseSnapshot doc_leftover = Some ([], Inr (returned doc_leftover))" by code_simp
  show "map edge_count (snapshot_nodes (returned doc_leftover)) = [Some 0, Some 0]" by code_simp
  have "length (snapshot_edges (returned doc_leftover)) < 1" by code_simp
  then show "snapshot_edges (returned doc_leftover) = []" by simp
  show "parseSnapshot doc_negative_count = Some ([], Inr (returned doc_negative_count))" by code_simp
  show "map edge_count (snapshot_nodes (returned doc_negative_count)) = [Some (- 1)]" by code_simp
  have "length (snapshot_edges (returned doc_negative_count)) < 1" by code_simp
  then show "snapshot_edges (returned doc_negative_count) = []" by simp
qed

lemma map_nth_fun: "map (\<lambda>n. f (xs ! n)) [0..<length xs] = map f xs"
proof -
  have "map (\<lambda>n. f (xs ! n)) [0..<length xs] = map f (map ((!) xs) [0..<length xs])"
    by simp
  then show ?thesis
    by (simp only: map_nth)
qed

lemma length_concat_replicate:
  "length (concat (map (\<lambda>n. replicate (g n) n) ks)) = sum_list (map g ks)"
  by (induction ks) simp_all

lemma parseSnapshot_edge_total:
  assumes "parseSnapshot d = Some (w, Inr s)" and "asRaw d = Some data"
  shows "length (snapshot_edges s) = (\<Sum>n\<leftarrow>snapshot_nodes s. iterations (edge_count n))"
    and "(\<Sum>n\<leftarrow>snapshot_nodes s. iterations (edge_count n))
           = (\<Sum>n\<leftarrow>parseNodes data (parseInfoFromSnapshot data). iterations (edge_count n))"
proof -
  let ?ns = "snapshot_nodes s"
  have "length (snapshot_edges s) = length (map edge_from (snapshot_edges s))"
    by simp
  also have "\<dots> = sum_list (map (\<lambda>n. iterations (edge_count (?ns ! n))) [0..<length ?ns])"
    unfolding parseSnapshot_edges(2) [OF assms] by (rule length_concat_replicate)
  also have "\<dots> = (\<Sum>n\<leftarrow>?ns. iterations (edge_count n))"
    using map_nth_fun [of "\<lambda>n. iterations (edge_count n)" ?ns] by simp
  finally show "length (snapshot_edges s) = (\<Sum>n\<leftarrow>?ns. iterations (edge_count n))" .
  let ?pn = "parseNodes data (parseInfoFromSnapshot data)"
  have len: "length ?ns = length ?pn"
    using parseSnapshot_nodes(1) [OF assms] by (simp add: parseNodes_eq)
  have "map edge_count ?ns = map edge_count ?pn"
    using parseSnapshot_nodes(2) [OF assms] len
    by (intro nth_equalityI) simp_all
  then have "map (iterations \<circ> edge_count) ?ns = map (iterations \<circ> edge_count) ?pn"
    by (metis map_map)
  then show "(\<Sum>n\<leftarrow>?ns. iterations (edge_count n)) = (\<Sum>n\<leftarrow>?pn. iterations (edge_count n))"
    by (simp add: comp_def)
qed

lemma sum_list_is_count:
  "list_all (\<lambda>n. is_count (edge_count n)) ns \<Longrightarrow>
     rat_of_nat (\<Sum>n\<leftarrow>ns. iterations (edge_count n)) = (\<Sum>n\<leftarrow>ns. the (edge_count n))"
  by (induction ns) (simp_all add: iterations_is_count)

text \<open>
  Claim C1, amended. Here \<open>iterations c\<close> is the number of passes of the inner loop for a
  declared count \<open>c\<close>; it is \<open>c\<close> itself when \<open>c\<close> is a natural number. When
  \<^verbatim>\<open>parseSnapshot\<close> returns a snapshot, its edges are grouped by origin node in node order,
  each node contributing as many edges as the loop makes passes for its declared count, so
  the number of edges is the sum of these (and the sum of the declared counts when they are
  natural numbers), and the records consumed all lie within the edge array. When the edge
  array holds fewer records than the declared counts ask for, \<^verbatim>\<open>parseSnapshot\<close> throws;
  after a check that passed, what it throws is the error on the \<^verbatim>\<open>undefined\<close> destination or
  the invalid-string-index error. Records left over after the last node are not looked at.
\<close>

theorem edges_consumed_in_node_order:
  assumes "asRaw d = Some data" and "parseSnapshot d = Some (w, r)"
  shows "(\<forall>s. r = Inr s \<longrightarrow>
            map edge_from (snapshot_edges s) =
              concat (map (\<lambda>n. replicate (iterations (edge_count (snapshot_nodes s ! n))) n)
                        [0..<length (snapshot_nodes s)]) \<and>
            length (snapshot_edges s) = (\<Sum>n\<leftarrow>snapshot_nodes s. iterations (edge_count n)) \<and>
            3 * length (snapshot_edges s) \<le> length (edges data) \<and>
            (list_all (\<lambda>n. is_count (edge_count n)) (snapshot_nodes s) \<longrightarrow>
               rat_of_nat (length (snapshot_edges s)) = (\<Sum>n\<leftarrow>snapshot_nodes s. the (edge_count n)))) \<and>
         (length (edges data)
            < 3 * (\<Sum>n\<leftarrow>parseNodes data (parseInfoFromSnapshot data). iterations (edge_count n)) \<longrightarrow>
            (\<exists>err. r = Inl err)) \<and>
         (\<forall>w' err. check d = Some (w', Inr ()) \<and> r = Inl err \<longrightarrow>
            err = TypeError \<or> err = InvalidStringIndex)"
proof -
  have ok: "map edge_from (snapshot_edges s) =
              concat (map (\<lambda>n. replicate (iterations (edge_count (snapshot_nodes s ! n))) n)
                        [0..<length (snapshot_nodes s)]) \<and>
            length (snapshot_edges s) = (\<Sum>n\<leftarrow>snapshot_nodes s. iterations (edge_count n)) \<and>
            3 * length (snapshot_edges s) \<le> length (edges data) \<and>
            (list_all (\<lambda>n. is_count (edge_count n)) (snapshot_nodes s) \<longrightarrow>
               rat_of_nat (length (snapshot_edges s)) = (\<Sum>n\<leftarrow>snapshot_nodes s. the (edge_count n)))"
    if "r = Inr s" for s
  proof -
    from that assms(2) have p: "parseSnapshot d = Some (w, Inr s)" by simp
    show ?thesis
      using parseSnapshot_edges(2,3) [OF p assms(1)] parseSnapshot_edge_total(1) [OF p assms(1)]
        sum_list_is_count [of "snapshot_nodes s"]
      by simp
  qed
  have overrun: "\<exists>err. r = Inl err"
    if "length (edges data)
          < 3 * (\<Sum>n\<leftarrow>parseNodes data (parseInfoFromSnapshot data). iterations (edge_count n))"
  proof (cases r)
    case (Inl err)
    then show ?thesis by simp
  next
    case (Inr s)
    with assms(2) have p: "parseSnapshot d = Some (w, Inr s)" by simp
    have "3 * (\<Sum>n\<leftarrow>parseNodes data (parseInfoFromSnapshot data). iterations (edge_count n))
            \<le> length (edges data)"
      using parseSnapshot_edges(3) [OF p assms(1)] parseSnapshot_edge_total [OF p assms(1)]
      by simp
    with that show ?thesis by simp
  qed
  have errors: "err = TypeError \<or> err = InvalidStringIndex"
    if "check d = Some (w', Inr ()) \<and> r = Inl err" for w' err
    using that parseSnapshot_checked [OF assms(2,1), of w'] buildSnapshot_errors [of data err]
    by simp
  from ok overrun errors show ?thesis by blast
qed

theorem edges_consumed_in_node_order_witness:
  "parseSnapshot doc_overrun = Some ([], Inl TypeError) \<and>
   parseSnapshot doc_example = Some ([], Inr (returned doc_example)) \<and>
   length (snapshot_edges (returned doc_example)) = 1 \<and>
   rat_of_nat (length (snapshot_edges (returned doc_example))) =
     (\<Sum>n\<leftarrow>snapshot_nodes (returned doc_example). the (edge_count n)) \<and>
   map edge_from (snapshot_edges (returned doc_example)) = [0]"
proof -
  let ?data = "the (asRaw doc_overrun)"
  let ?s = "returned doc_example"
  have h1: "asRaw doc_overrun = Some ?data" by code_simp
  have v: "length (edges ?data) = 3"
    "(\<Sum>n\<leftarrow>parseNodes ?data (parseInfoFromSnapshot ?data). iterations (edge_count n)) = 2"
    by code_simp+
  have h2: "parseSnapshot doc_overrun = Some ([], Inl TypeError)" by code_simp
  have g1: "asRaw doc_example = Some (the (asRaw doc_example))" by code_simp
  have g2: "parseSnapshot doc_example = Some ([], Inr ?s)" by code_simp
  have g3: "map (\<lambda>n. iterations (edge_count n)) (snapshot_nodes ?s) = [1, 0]"
    by code_simp
  have g4: "list_all (\<lambda>n. is_count (edge_count n)) (snapshot_nodes ?s)"
    by code_simp
  note r = edges_consumed_in_node_order [OF g1 g2]
  from r have ok: "map edge_from (snapshot_edges ?s) =
              concat (map (\<lambda>n. replicate (iterations (edge_count (snapshot_nodes ?s ! n))) n)
                        [0..<length (snapshot_nodes ?s)]) \<and>
            length (snapshot_edges ?s) = (\<Sum>n\<leftarrow>snapshot_nodes ?s. iterations (edge_count n)) \<and>
            3 * length (snapshot_edges ?s) \<le> length (edges (the (asRaw doc_example))) \<and>
            (list_all (\<lambda>n. is_count (edge_count n)) (snapshot_nodes ?s) \<longrightarrow>
               rat_of_nat (length (snapshot_edges ?s)) = (\<Sum>n\<leftarrow>snapshot_nodes ?s. the (edge_count n)))"
    by blast
  then have "length (snapshot_edges ?s) = (\<Sum>n\<leftarrow>snapshot_nodes ?s. iterations (edge_count n))"
    by (elim conjE)
  then have a: "length (snapshot_edges ?s) = 1"
    unfolding g3 by simp
  from ok g4 have c: "rat_of_nat (length (snapshot_edges ?s)) = (\<Sum>n\<leftarrow>snapshot_nodes ?s. the (edge_count n))"
    by (elim conjE impE)
  have b: "map edge_from (snapshot_edges ?s) = [0]"
    by code_simp
  from edges_consumed_in_node_order [OF h1 h2] v
  have "\<exists>err. (Inl TypeError :: error + SnapshotImpl) = Inl err"
    by simp
  with h2 g2 a b c show ?thesis by simp
qed

section \<open>Wiring of the adjacency lists (claim C5)\<close>

text \<open>
  Claim C5 as stated fails in its last part: \<open>doc_negative_count\<close> is decoded, the sum of
  the declared edge counts is \<open>-1\<close>, and there are no decoded edges. The inner loop makes
  no pass for a count below one and the count is not validated.
\<close>

theorem edge_count_sum_counterexample:
  "parseSnapshot doc_negative_count = Some ([], Inr (returned doc_negative_count)) \<and>
   (\<Sum>n\<leftarrow>snapshot_nodes (returned doc_negative_count). the (edge_count n)) = - 1 \<and>
   rat_of_nat (length (snapshot_edges (returned doc_negative_count))) = 0"
proof (intro conjI)
  show "parseSnapshot doc_negative_count = Some ([], Inr (returned doc_negative_count))"
    by code_simp
  show "(\<Sum>n\<leftarrow>snapshot_nodes (returned doc_negative_count). the (edge_count n)) = - 1"
    by code_simp
  have "length (snapshot_edges (returned doc_negative_count)) < 1"
    by code_simp
  then show "rat_of_nat (length (snapshot_edges (returned doc_negative_count))) = 0"
    by simp
qed

lemma sum_list_adjacent:
  assumes "length ns' = N" and "\<And>n. n < N \<Longrightarrow> g (ns' ! n) = h n"
  shows "sum_list (map g ns') = (\<Sum>n\<leftarrow>[0..<N]. h n)"
proof -
  have "map g ns' = map h [0..<N]"
    using assms by (intro nth_equalityI) simp_all
  then show ?thesis by simp
qed

text \<open>
  Claim C5, amended. In every decoded snapshot, each edge \<open>e\<close> (a position in the edge
  sequence) has its two end nodes in the snapshot and occurs exactly once in the
  \<^verbatim>\<open>out_edges\<close> of its origin and exactly once in the \<^verbatim>\<open>in_edges\<close> of its destination; the
  \<^verbatim>\<open>out_edges\<close> and \<^verbatim>\<open>in_edges\<close> of every node are strictly increasing, that is in decode
  order, and hold only edges that start, respectively end, at that node; the sizes of all
  \<^verbatim>\<open>out_edges\<close> and of all \<^verbatim>\<open>in_edges\<close> each add up to the number of decoded edges; and when
  every declared \<^verbatim>\<open>edge_count\<close> is a natural number, their sum is that number too.
\<close>

theorem wiring_consistent:
  assumes "parseSnapshot d = Some (w, Inr s)"
  shows "(\<forall>e < length (snapshot_edges s).
            edge_from (snapshot_edges s ! e) < length (snapshot_nodes s) \<and>
            edge_to (snapshot_edges s ! e) < length (snapshot_nodes s) \<and>
            count_list (out_edges (snapshot_nodes s ! edge_from (snapshot_edges s ! e))) e = 1 \<and>
            count_list (in_edges (snapshot_nodes s ! edge_to (snapshot_edges s ! e))) e = 1) \<and>
         (\<forall>n < length (snapshot_nodes s).
            sorted_wrt (<) (out_edges (snapshot_nodes s ! n)) \<and>
            sorted_wrt (<) (in_edges (snapshot_nodes s ! n)) \<and>
            (\<forall>e \<in> set (out_edges (snapshot_nodes s ! n)).
               e < length (snapshot_edges s) \<and> edge_from (snapshot_edges s ! e) = n) \<and>
            (\<forall>e \<in> set (in_edges (snapshot_nodes s ! n)).
               e < length (snapshot_edges s) \<and> edge_to (snapshot_edges s ! e) = n)) \<and>
         (\<Sum>n\<leftarrow>snapshot_nodes s. length (out_edges n)) = length (snapshot_edges s) \<and>
         (\<Sum>n\<leftarrow>snapshot_nodes s. length (in_edges n)) = length (snapshot_edges s) \<and>
         (list_all (\<lambda>n. is_count (edge_count n)) (snapshot_nodes s) \<longrightarrow>
            (\<Sum>n\<leftarrow>snapshot_nodes s. the (edge_count n)) = rat_of_nat (length (snapshot_edges s)))"
proof -
  from assms obtain data where data: "asRaw d = Some data"
    by (auto elim!: parseSnapshot_Inr)
  let ?es = "snapshot_edges s" and ?ns = "snapshot_nodes s"
  let ?pn = "parseNodes data (parseInfoFromSnapshot data)"
  note nodes = parseSnapshot_nodes [OF assms data]
  note edges = parseSnapshot_edges [OF assms data]
  have out: "out_edges (?ns ! n) = filter (\<lambda>e. edge_from (?es ! e) = n) [0..<length ?es]"
    and inn: "in_edges (?ns ! n) = filter (\<lambda>e. edge_to (?es ! e) = n) [0..<length ?es]"
    if "n < length ?ns" for n
    using nodes(2) [OF that] by (simp_all add: adjacent_def)
  have per_edge: "edge_from (?es ! e) < length ?ns \<and> edge_to (?es ! e) < length ?ns \<and>
      count_list (out_edges (?ns ! edge_from (?es ! e))) e = 1 \<and>
      count_list (in_edges (?ns ! edge_to (?es ! e))) e = 1"
    if "e < length ?es" for e
  proof -
    from edges(1) [OF that]
    have f: "edge_from (?es ! e) < length ?ns" and t: "edge_to (?es ! e) < length ?ns"
      by simp_all
    show ?thesis
      using that f t by (simp add: out [OF f] inn [OF t] count_list_filter count_list_upt)
  qed
  have per_node: "sorted_wrt (<) (out_edges (?ns ! n)) \<and> sorted_wrt (<) (in_edges (?ns ! n)) \<and>
      (\<forall>e \<in> set (out_edges (?ns ! n)). e < length ?es \<and> edge_from (?es ! e) = n) \<and>
      (\<forall>e \<in> set (in_edges (?ns ! n)). e < length ?es \<and> edge_to (?es ! e) = n)"
    if "n < length ?ns" for n
    by (simp add: out [OF that] inn [OF that] sorted_wrt_filter)
  have from_lt: "\<forall>e < length ?es. edge_from (?es ! e) < length ?ns"
    and to_lt: "\<forall>e < length ?es. edge_to (?es ! e) < length ?ns"
    using edges(1) by simp_all
  have sum_out: "(\<Sum>n\<leftarrow>?ns. length (out_edges n)) = length ?es"
    using sum_list_adjacent [of ?ns "length ?ns" "\<lambda>n. length (out_edges n)"
        "\<lambda>n. length (filter (\<lambda>e. edge_from (?es ! e) = n) [0..<length ?es])"]
      out sum_length_filter_upt [OF from_lt]
    by simp
  have sum_in: "(\<Sum>n\<leftarrow>?ns. length (in_edges n)) = length ?es"
    using sum_list_adjacent [of ?ns "length ?ns" "\<lambda>n. length (in_edges n)"
        "\<lambda>n. length (filter (\<lambda>e. edge_to (?es ! e) = n) [0..<length ?es])"]
      inn sum_length_filter_upt [OF to_lt]
    by simp
  have counts: "(\<Sum>n\<leftarrow>?ns. the (edge_count n)) = rat_of_nat (length ?es)"
    if "list_all (\<lambda>n. is_count (edge_count n)) ?ns"
    using sum_list_is_count [OF that] parseSnapshot_edge_total(1) [OF assms data]
    by simp
  from per_edge per_node sum_out sum_in counts show ?thesis
    by blast
qed

theorem wiring_consistent_witness:
  "out_edges (snapshot_nodes (returned doc_example) ! 0) = [0] \<and>
   in_edges (snapshot_nodes (returned doc_example) ! 1) = [0] \<and>
   count_list (out_edges (snapshot_nodes (returned doc_example) ! 0)) 0 = 1 \<and>
   count_list (in_edges (snapshot_nodes (returned doc_example) ! 1)) 0 = 1 \<and>
   (\<Sum>n\<leftarrow>snapshot_nodes (returned doc_example). length (out_edges n)) = 1 \<and>
   (\<Sum>n\<leftarrow>snapshot_nodes (returned doc_example). the (edge_count n)) = 1"
proof -
  let ?s = "returned doc_example"
  have h: "parseSnapshot doc_example = Some ([], Inr ?s)" by code_simp
  have v: "0 < length (snapshot_edges ?s)" "length (snapshot_edges ?s) = 1"
    "edge_from (snapshot_edges ?s ! 0) = 0" "edge_to (snapshot_edges ?s ! 0) = 1"
    "list_all (\<lambda>n. is_count (edge_count n)) (snapshot_nodes ?s)"
    "out_edges (snapshot_nodes ?s ! 0) = [0]" "in_edges (snapshot_nodes ?s ! 1) = [0]"
    by code_simp+
  note r = wiring_consistent [OF h]
  from r have per_edge: "\<forall>e < length (snapshot_edges ?s).
            edge_from (snapshot_edges ?s ! e) < length (snapshot_nodes ?s) \<and>
            edge_to (snapshot_edges ?s ! e) < length (snapshot_nodes ?s) \<and>
            count_list (out_edges (snapshot_nodes ?s ! edge_from (snapshot_edges ?s ! e))) e = 1 \<and>
            count_list (in_edges (snapshot_nodes ?s ! edge_to (snapshot_edges ?s ! e))) e = 1"
    by (elim conjE)
  from per_edge [rule_format, OF v(1)]
  have c: "count_list (out_edges (snapshot_nodes ?s ! 0)) 0 = 1"
    "count_list (in_edges (snapshot_nodes ?s ! 1)) 0 = 1"
    unfolding v(3,4) by simp_all
  from r have "(\<Sum>n\<leftarrow>snapshot_nodes ?s. length (out_edges n)) = length (snapshot_edges ?s)"
    by (elim conjE)
  then have so: "(\<Sum>n\<leftarrow>snapshot_nodes ?s. length (out_edges n)) = 1"
    unfolding v(2) .
  from r have "list_all (\<lambda>n. is_count (edge_count n)) (snapshot_nodes ?s) \<longrightarrow>
            (\<Sum>n\<leftarrow>snapshot_nodes ?s. the (edge_count n)) = rat_of_nat (length (snapshot_edges ?s))"
    by (elim conjE)
  with v(5) have sc: "(\<Sum>n\<leftarrow>snapshot_nodes ?s. the (edge_count n)) = 1"
    unfolding v(2) by simp
  from v(6,7) c so sc show ?thesis
    by (intro conjI)
qed

section \<open>The comparison with the template\<close>





section \<open>A document that passes the check meets the listed assertions\<close>

lemma js_length_list_length: "js_length v = Some (Inr l) \<Longrightarrow> l = list_length v"
  by (cases v) (auto simp: list_length_def split: option.splits jsval.splits if_splits)

lemma getprop_member:
  "getprop v p = Inr x \<Longrightarrow> p \<noteq> ''length'' \<Longrightarrow> x = member v p"
  by (cases v) (auto simp: member_def)

lemma getprop_isArray_object:
  "typeof v = ''object'' \<Longrightarrow> getprop v p = Inr x \<Longrightarrow> isArray x \<Longrightarrow> is_object v"
  by (cases v) (auto simp: is_object_def split: if_splits)

lemma getprop_length_object:
  "typeof v = ''object'' \<Longrightarrow> getprop v p = Inr x \<Longrightarrow> js_length x = Some (Inr l) \<Longrightarrow> p \<noteq> ''length''
     \<Longrightarrow> \<exists>kvs. v = JObj kvs"
  by (cases v) (auto split: if_splits)

lemma assertX_Inr [simp]: "assertX desc cond = Inr u \<longleftrightarrow> cond"
  by simp

lemma assertObject_Inr [simp]: "assertObject path x = Inr u \<longleftrightarrow> typeof x = ''object''"
  by (simp add: assertObject_def)

lemma assertArray_Inr [simp]: "assertArray path x = Inr u \<longleftrightarrow> isArray x"
  by (simp add: assertArray_def)

lemma assertInteger_Inr [simp]: "assertInteger path x = Inr u \<longleftrightarrow> isInteger x"
  by (simp add: assertInteger_def)

lemma assertLength_Inr [simp]:
  "assertLength name len expected = Inr u \<longleftrightarrow> len = expected \<and> expected \<noteq> None"
  by (auto simp: assertLength_def)

lemma check_structure_facts:
  assumes "check_structure d = Some (Inr meta)"
  obtains nodes edges strs tfi snapshot nc ec tfc nf nt ef et nfl ntl efl etl where
    "typeof d = ''object''"
    "getprop d ''nodes'' = Inr nodes" "isArray nodes"
    "getprop d ''edges'' = Inr edges" "isArray edges"
    "getprop d ''strings'' = Inr strs" "isArray strs"
    "getprop d ''trace_function_infos'' = Inr tfi" "isArray tfi"
    "getprop d ''snapshot'' = Inr snapshot"
    "getprop snapshot ''node_count'' = Inr nc" "isInteger nc"
    "getprop snapshot ''edge_count'' = Inr ec" "isInteger ec"
    "getprop snapshot ''trace_function_count'' = Inr tfc" "isInteger tfc"
    "getprop snapshot ''meta'' = Inr meta" "typeof meta = ''object''"
    "getprop meta ''node_fields'' = Inr nf" "js_length nf = Some (Inr nfl)"
    "getprop meta ''node_types'' = Inr nt" "js_length nt = Some (Inr ntl)" "nfl = ntl"
    "getprop meta ''edge_fields'' = Inr ef" "js_length ef = Some (Inr efl)"
    "getprop meta ''edge_types'' = Inr et" "js_length et = Some (Inr etl)" "efl = etl"
    "ge_num nfl 6" "efl = Some 3"
  using assms
  unfolding check_structure_def parseInfoFromDocument_def thenS_Inr_iff thenL_Inr_iff
  by (auto simp: thenS_Inr_iff thenL_Inr_iff split: if_splits)

lemma check_structure_spec:
  assumes "check_structure d = Some (Inr meta)"
  shows "spec_structure d" and "\<exists>kvs. meta = JObj kvs"
    and "meta = member (member d ''snapshot'') ''meta''"
proof -
  from assms obtain nodes edges strs tfi snapshot nc ec tfc nf nt ef et nfl ntl efl etl where
    f: "typeof d = ''object''"
    "getprop d ''nodes'' = Inr nodes" "isArray nodes"
    "getprop d ''edges'' = Inr edges" "isArray edges"
    "getprop d ''strings'' = Inr strs" "isArray strs"
    "getprop d ''trace_function_infos'' = Inr tfi" "isArray tfi"
    "getprop d ''snapshot'' = Inr snapshot"
    "getprop snapshot ''node_count'' = Inr nc" "isInteger nc"
    "getprop snapshot ''edge_count'' = Inr ec" "isInteger ec"
    "getprop snapshot ''trace_function_count'' = Inr tfc" "isInteger tfc"
    "getprop snapshot ''meta'' = Inr meta" "typeof meta = ''object''"
    "getprop meta ''node_fields'' = Inr nf" "js_length nf = Some (Inr nfl)"
    "getprop meta ''node_types'' = Inr nt" "js_length nt = Some (Inr ntl)" "nfl = ntl"
    "getprop meta ''edge_fields'' = Inr ef" "js_length ef = Some (Inr efl)"
    "getprop meta ''edge_types'' = Inr et" "js_length et = Some (Inr etl)" "efl = etl"
    "ge_num nfl 6" "efl = Some 3"
    by (rule check_structure_facts)
  have obj: "is_object d"
    using f(1,2,3) by (rule getprop_isArray_object)
  show meta_obj: "\<exists>kvs. meta = JObj kvs"
    using f(18,19,20) by (rule getprop_length_object) simp
  have m: "nodes = member d ''nodes''" "edges = member d ''edges''" "strs = member d ''strings''"
    "tfi = member d ''trace_function_infos''" "snapshot = member d ''snapshot''"
    "nc = member snapshot ''node_count''" "ec = member snapshot ''edge_count''"
    "tfc = member snapshot ''trace_function_count''" "meta = member snapshot ''meta''"
    "nf = member meta ''node_fields''" "nt = member meta ''node_types''"
    "ef = member meta ''edge_fields''" "et = member meta ''edge_types''"
    using f(2,4,6,8,10,11,13,15,17,19,21,24,26) by (auto dest!: getprop_member)
  have l: "nfl = list_length nf" "ntl = list_length nt" "efl = list_length ef" "etl = list_length et"
    using f(20,22,25,27) by (auto dest!: js_length_list_length)
  show "meta = member (member d ''snapshot'') ''meta''"
    using m(5,9) by simp
  show "spec_structure d"
    unfolding spec_structure_def Let_def
    using obj f(3,5,7,9,12,14,16,23,28,29,30) m l by simp
qed

lemma check_counts_spec:
  assumes "check_counts d = Some (Inr ())"
  shows "spec_counts d"
proof -
  from assms obtain snapshot meta nodes nc nf nfl edges ec ef efl tfi tfc tff tffl y ya yb where
    f: "getprop d ''snapshot'' = Inr snapshot" "getprop snapshot ''meta'' = Inr meta"
    "getprop d ''nodes'' = Inr nodes" "js_length nodes = Some (Inr (Some y))"
    "getprop snapshot ''node_count'' = Inr nc"
    "getprop meta ''node_fields'' = Inr nf" "js_length nf = Some (Inr nfl)"
    "times_num nc nfl = Some y"
    "getprop d ''edges'' = Inr edges" "js_length edges = Some (Inr (Some ya))"
    "getprop snapshot ''edge_count'' = Inr ec"
    "getprop meta ''edge_fields'' = Inr ef" "js_length ef = Some (Inr efl)"
    "times_num ec efl = Some ya"
    "getprop d ''trace_function_infos'' = Inr tfi" "js_length tfi = Some (Inr (Some yb))"
    "getprop snapshot ''trace_function_count'' = Inr tfc"
    "getprop meta ''trace_function_info_fields'' = Inr tff" "js_length tff = Some (Inr tffl)"
    "times_num tfc tffl = Some yb"
    unfolding check_counts_def thenS_Inr_iff thenL_Inr_iff
    by (auto simp: thenS_Inr_iff thenL_Inr_iff)
  have m: "snapshot = member d ''snapshot''" "meta = member snapshot ''meta''"
    "nodes = member d ''nodes''" "nc = member snapshot ''node_count''"
    "nf = member meta ''node_fields''" "edges = member d ''edges''"
    "ec = member snapshot ''edge_count''" "ef = member meta ''edge_fields''"
    "tfi = member d ''trace_function_infos''" "tfc = member snapshot ''trace_function_count''"
    "tff = member meta ''trace_function_info_fields''"
    using f(1,2,3,5,6,9,11,12,15,17,18) by (auto dest!: getprop_member)
  have l: "list_length nodes = Some y" "nfl = list_length nf" "list_length edges = Some ya"
    "efl = list_length ef" "list_length tfi = Some yb" "tffl = list_length tff"
    using f(4,7,10,13,16,19) by (auto dest!: js_length_list_length)
  show ?thesis
    unfolding spec_counts_def Let_def count_matches_def
    using f(8,14,20) m l by simp
qed

text \<open>The ways a validation that has a result can go.\<close>

lemma check_cases:
  assumes "check d = Some (w, r)"
  obtains (failed_structure) err where "check_structure d = Some (Inl err)" "w = []" "r = Inl err"
  | (failed_comparison) meta err where "check_structure d = Some (Inr meta)"
      "checkMetaData (''data.snapshot.meta'', []) meta metaDataProto = (w, Inl err)" "r = Inl err"
  | (passed_comparison) meta ws ok where "check_structure d = Some (Inr meta)"
      "checkMetaData (''data.snapshot.meta'', []) meta metaDataProto = (ws, Inr ok)"
      "w = ws @ (if ok then [] else [ErrorFormatChanged, ErrorContinuing])"
      "check_counts d = Some r"
  using assms
  by (auto simp: check_def split: option.splits sum.splits prod.splits if_splits)

section \<open>Drift diagnostics (claim C3)\<close>




section \<open>Structural validation (claim C7)\<close>

text \<open>
  A validation that reads the length of an object whose own property \<^verbatim>\<open>length\<close> is not a
  whole number has no result here: \<open>doc_length_text\<close> is such a document.
\<close>

lemma length_text_not_modelled:
  "check doc_length_text = None \<and> parseSnapshot doc_length_text = None"
  by code_simp

text \<open>
  Claim C7 as stated fails: in \<open>doc_drift_short\<close> the node array has 7 elements where
  record count times field count is 8, an element-count assertion fails, and the four
  warnings and the notice about the drifting descriptor have been printed before it does.
\<close>

theorem drift_before_abort_counterexample:
  "list_length (member doc_drift_short ''nodes'') = Some 7 \<and>
   check doc_drift_short =
     Some ([WarnNewElements (''data.snapshot.meta'', [AtProp ''node_fields'']) 1,
            WarnNewElementAt 7 (Some (JStr ''extra'')),
            WarnNewElements (''data.snapshot.meta'', [AtProp ''node_types'']) 1,
            WarnNewElementAt 7 (Some (JStr ''number'')),
            ErrorFormatChanged, ErrorContinuing],
           Inl (LengthError ''node elements'' (Some 7) (Some 8)))"
proof (intro conjI)
  show "list_length (member doc_drift_short ''nodes'') = Some 7"
    by code_simp
  show "check doc_drift_short =
     Some ([WarnNewElements (''data.snapshot.meta'', [AtProp ''node_fields'']) 1,
            WarnNewElementAt 7 (Some (JStr ''extra'')),
            WarnNewElements (''data.snapshot.meta'', [AtProp ''node_types'']) 1,
            WarnNewElementAt 7 (Some (JStr ''number'')),
            ErrorFormatChanged, ErrorContinuing],
           Inl (LengthError ''node elements'' (Some 7) (Some 8)))"
    by code_simp
qed

lemma spec_structure_edge_fields:
  "spec_structure d \<Longrightarrow>
     list_length (member (member (member d ''snapshot'') ''meta'') ''edge_fields'') = Some 3"
  unfolding spec_structure_def Let_def by (elim conjE)

text \<open>
  Claim C7, amended. Let the validation of \<open>d\<close> print \<open>w\<close> and end in \<open>r\<close>. When one of the
  assertions on the root, the bulk arrays, the declared counts or the field lists fails
  (\<open>spec_structure\<close>), the validation throws and nothing has been printed; a two-entry
  \<^verbatim>\<open>edge_fields\<close> is such a case. When an element count disagrees (\<open>spec_counts\<close>), the
  validation throws as well; this assertion comes after the comparison with the template,
  whose diagnostics may already be on the console. Whenever the validation throws,
  \<^verbatim>\<open>parseSnapshot\<close> throws the same error, having printed the same, and decodes no node or
  edge; a root that is neither an object nor a text is rejected before the validation.
\<close>

theorem structural_validation_aborts:
  "(check d = Some (w, r) \<and> \<not> spec_structure d \<longrightarrow> w = [] \<and> (\<exists>err. r = Inl err)) \<and>
   (check d = Some (w, r) \<and>
    list_length (member (member (member d ''snapshot'') ''meta'') ''edge_fields'') = Some 2 \<longrightarrow>
      w = [] \<and> (\<exists>err. r = Inl err)) \<and>
   (check d = Some (w, r) \<and> \<not> spec_counts d \<longrightarrow> (\<exists>err. r = Inl err)) \<and>
   (\<forall>err. check d = Some (w, Inl err) \<and> typeof d = ''object'' \<longrightarrow>
      parseSnapshot d = Some (w, Inl err)) \<and>
   (typeof d \<noteq> ''object'' \<and> typeof d \<noteq> ''string'' \<longrightarrow>
      parseSnapshot d = Some ([], Inl (AssertError ''Illigal snapshot data!'')))"
proof -
  have a: "w = [] \<and> (\<exists>err. r = Inl err)" if "check d = Some (w, r) \<and> \<not> spec_structure d"
  proof -
    from that have c: "check d = Some (w, r)" and n: "\<not> spec_structure d"
      by simp_all
    from c show ?thesis
    proof (cases rule: check_cases)
      case (failed_structure err)
      then show ?thesis by simp
    next
      case (failed_comparison meta err)
      with n show ?thesis
        using check_structure_spec(1) by blast
    next
      case (passed_comparison meta ws ok)
      with n show ?thesis
        using check_structure_spec(1) by blast
    qed
  qed
  have b: "w = [] \<and> (\<exists>err. r = Inl err)"
    if "check d = Some (w, r) \<and>
        list_length (member (member (member d ''snapshot'') ''meta'') ''edge_fields'') = Some 2"
  proof -
    from that have "\<not> spec_structure d"
      using spec_structure_edge_fields [of d] by auto
    with that show ?thesis using a by simp
  qed
  have c: "\<exists>err. r = Inl err" if "check d = Some (w, r) \<and> \<not> spec_counts d"
  proof -
    from that have c: "check d = Some (w, r)" and n: "\<not> spec_counts d"
      by simp_all
    from c show ?thesis
    proof (cases rule: check_cases)
      case (failed_structure err)
      then show ?thesis by simp
    next
      case (failed_comparison meta err)
      then show ?thesis by simp
    next
      case (passed_comparison meta ws ok)
      from n have "check_counts d \<noteq> Some (Inr ())"
        using check_counts_spec by blast
      with passed_comparison(4) show ?thesis
        by (cases r) auto
    qed
  qed
  have e: "parseSnapshot d = Some (w, Inl err)"
    if "check d = Some (w, Inl err) \<and> typeof d = ''object''" for err
    using that by (simp add: parseSnapshot_def)
  have f: "parseSnapshot d = Some ([], Inl (AssertError ''Illigal snapshot data!''))"
    if "typeof d \<noteq> ''object'' \<and> typeof d \<noteq> ''string''"
    using that by (simp add: parseSnapshot_def)
  from a b c e f show ?thesis by blast
qed

theorem structural_validation_aborts_witness:
  "check doc_two_edge_fields = Some ([], Inl (LengthError ''edge fields'' (Some 2) (Some 3))) \<and>
   parseSnapshot doc_two_edge_fields = Some ([], Inl (LengthError ''edge fields'' (Some 2) (Some 3))) \<and>
   parseSnapshot (JNum 1) = Some ([], Inl (AssertError ''Illigal snapshot data!'')) \<and>
   \<not> spec_counts doc_drift_short \<and>
   isl (snd (the (check doc_drift_short)))"
proof -
  let ?d = doc_two_edge_fields
  let ?err = "LengthError ''edge fields'' (Some 2) (Some 3)"
  have h: "list_length (member (member (member ?d ''snapshot'') ''meta'') ''edge_fields'') = Some 2"
    by code_simp
  have v: "check ?d = Some ([], Inl ?err)" "typeof ?d = ''object''"
    by code_simp+
  note r = structural_validation_aborts [of ?d "[]" "Inl ?err"]
  from r have "check ?d = Some ([], Inl ?err) \<and>
      list_length (member (member (member ?d ''snapshot'') ''meta'') ''edge_fields'') = Some 2 \<longrightarrow>
      ([] :: diag list) = [] \<and> (\<exists>err. (Inl ?err :: error + unit) = Inl err)"
    by (elim conjE)
  from r have "\<forall>err. check ?d = Some ([], Inl err) \<and> typeof ?d = ''object'' \<longrightarrow>
      parseSnapshot ?d = Some ([], Inl err)"
    by (elim conjE)
  from this [rule_format, of ?err] v
  have p: "parseSnapshot ?d = Some ([], Inl ?err)"
    by simp
  have "typeof (JNum 1) \<noteq> ''object'' \<and> typeof (JNum 1) \<noteq> ''string''"
    by simp
  with structural_validation_aborts [of "JNum 1"]
  have q: "parseSnapshot (JNum 1) = Some ([], Inl (AssertError ''Illigal snapshot data!''))"
    by (elim conjE) auto
  let ?s = doc_drift_short
  have n: "\<not> spec_counts ?s"
    by code_simp
  have k: "check ?s = Some (fst (the (check ?s)), snd (the (check ?s)))"
    by code_simp
  from structural_validation_aborts [of ?s "fst (the (check ?s))" "snd (the (check ?s))"] k n
  have "\<exists>err. snd (the (check ?s)) = Inl err"
    by (elim conjE) auto
  then have s: "isl (snd (the (check ?s)))"
    by auto
  from v(1) p q n s show ?thesis by (intro conjI)
qed

end
